theory Spec2Isabelle
  imports Complex_Main "HOL-Library.Word"
begin

section \<open>Process identity and the library calls of the matchers\<close>

text \<open>
  The classification engine of the exporter (package \<open>collector\<close>, the configuration
  file) works on a \<open>NameAndCmdline\<close>: the command name of a process and its argument
  vector. Go strings are byte sequences, here \<open>string\<close>.
\<close>

record NameAndCmdline =
  Name :: string
  Cmdline :: "string list"

text \<open>\<open>strings.Join(elems, sep)\<close> of the Go standard library.\<close>

fun strings_Join :: "string list \<Rightarrow> string \<Rightarrow> string" where
  "strings_Join [] sep = []"
| "strings_Join [a] sep = a"
| "strings_Join (a # b # rest) sep = a @ sep @ strings_Join (b # rest) sep"

text \<open>\<open>strings.Contains(s, substr)\<close>: some suffix of \<open>s\<close> starts with \<open>substr\<close>.\<close>

fun strings_Contains :: "string \<Rightarrow> string \<Rightarrow> bool" where
  "strings_Contains [] substr = (substr = [])"
| "strings_Contains (c # cs) substr =
     (take (length substr) (c # cs) = substr \<or> strings_Contains cs substr)"

text \<open>
  \<open>filepath.Base(path)\<close> on a system whose separator is \<open>/\<close> and that has no volume
  names: the empty path gives \<open>.\<close>; trailing slashes are stripped; the result is what
  follows the last remaining slash; a path of slashes only gives \<open>/\<close>.
\<close>

definition strip_trailing_slashes :: "string \<Rightarrow> string" where
  "strip_trailing_slashes path = rev (dropWhile (\<lambda>c. c = CHR ''/'') (rev path))"

definition last_element :: "string \<Rightarrow> string" where
  "last_element path = rev (takeWhile (\<lambda>c. c \<noteq> CHR ''/'') (rev path))"

definition filepath_Base :: "string \<Rightarrow> string" where
  "filepath_Base path =
     (if path = [] then ''.''
      else let path1 = last_element (strip_trailing_slashes path)
           in if path1 = [] then ''/'' else path1)"

text \<open>
  A compiled \<open>*regexp.Regexp\<close>, as far as the matcher uses it: \<open>SubexpNames()\<close>, whose
  entry 0 stands for the whole match and is the empty string, as is the entry of every
  unnamed group; and \<open>FindStringSubmatch(s)\<close>, the leftmost match with the text of every
  group, or \<open>nil\<close> (here \<open>None\<close>) when the expression matches nowhere in \<open>s\<close>.
\<close>

record regexp =
  SubexpNames :: "string list"
  FindStringSubmatch :: "string \<Rightarrow> string list option"

text \<open>
  What package \<open>regexp\<close> guarantees of every compiled expression: a match has one text
  per entry of \<open>SubexpNames()\<close>. The matcher compares the two lengths itself and gives
  up when they differ.
\<close>

definition regexp_lengths_agree :: "regexp \<Rightarrow> bool" where
  "regexp_lengths_agree r =
     (\<forall>s caps. FindStringSubmatch r s = Some caps \<longrightarrow> length caps = length (SubexpNames r))"

text \<open>
  A \<open>map[string]string\<close> of captures. A Go map value may be \<open>nil\<close>, so the second result
  of \<open>Match\<close> is an option: \<open>None\<close> is the nil map.
\<close>

type_synonym CaptureSet = "string \<rightharpoonup> string"

section \<open>Matchers\<close>

text \<open>
  The three implementations of the interface \<open>Matcher\<close>: \<open>commMatcher\<close> holds a set of
  names (\<open>map[string]struct{}\<close>), \<open>exeMatcher\<close> a map from basename to the required
  full path (empty: none required), \<open>cmdlineMatcher\<close> a list of regular expressions.
\<close>

datatype Matcher =
    CommMatcher "string set"
  | ExeMatcher "string \<rightharpoonup> string"
  | CmdlineMatcher "regexp list"

definition commMatcher_Match :: "string set \<Rightarrow> NameAndCmdline \<Rightarrow> bool \<times> CaptureSet option" where
  "commMatcher_Match comms nacl = (Name nacl \<in> comms, None)"

definition exeMatcher_Match ::
  "(string \<rightharpoonup> string) \<Rightarrow> NameAndCmdline \<Rightarrow> bool \<times> CaptureSet option" where
  "exeMatcher_Match exes nacl =
     (case Cmdline nacl of
        [] \<Rightarrow> (False, None)
      | arg0 # _ \<Rightarrow>
          (case exes (filepath_Base arg0) of
             None \<Rightarrow> (False, None)
           | Some fqpath \<Rightarrow>
               if fqpath = [] then (True, None) else (fqpath = arg0, None)))"

text \<open>
  The inner loop of \<open>cmdlineMatcher.Match\<close>:
  \<open>for i, name := range subexpNames { matches[name] = regexCaptures[i] }\<close>.
  It runs only after the two lengths were compared, so the last equation is never
  reached from the matcher.
\<close>

fun assign_captures :: "string list \<Rightarrow> string list \<Rightarrow> CaptureSet \<Rightarrow> CaptureSet" where
  "assign_captures [] regexCaptures matches = matches"
| "assign_captures (name # names) (c # regexCaptures) matches =
     assign_captures names regexCaptures (matches(name \<mapsto> c))"
| "assign_captures (name # names) [] matches = matches"

text \<open>The loop over the regular expressions; \<open>s\<close> is the joined command line.\<close>

fun cmdline_regex_loop ::
  "regexp list \<Rightarrow> string \<Rightarrow> CaptureSet \<Rightarrow> bool \<times> CaptureSet option" where
  "cmdline_regex_loop [] s matches = (True, Some matches)"
| "cmdline_regex_loop (regex # rest) s matches =
     (case FindStringSubmatch regex s of
        None \<Rightarrow> (False, None)
      | Some regexCaptures \<Rightarrow>
          if length (SubexpNames regex) \<noteq> length regexCaptures then (False, None)
          else cmdline_regex_loop rest s
                 (assign_captures (SubexpNames regex) regexCaptures matches))"

definition cmdlineMatcher_Match ::
  "regexp list \<Rightarrow> NameAndCmdline \<Rightarrow> bool \<times> CaptureSet option" where
  "cmdlineMatcher_Match regexes nacl =
     cmdline_regex_loop regexes (strings_Join (Cmdline nacl) '' '') Map.empty"

text \<open>Dynamic dispatch of \<open>Match\<close> on the interface value.\<close>

fun Matcher_Match :: "Matcher \<Rightarrow> NameAndCmdline \<Rightarrow> bool \<times> CaptureSet option" where
  "Matcher_Match (CommMatcher comms) nacl = commMatcher_Match comms nacl"
| "Matcher_Match (ExeMatcher exes) nacl = exeMatcher_Match exes nacl"
| "Matcher_Match (CmdlineMatcher regexes) nacl = cmdlineMatcher_Match regexes nacl"

text \<open>
  \<open>andMatcher.Match\<close>: the loop over the matchers of one rule. Copying every entry of
  a non-nil \<open>matches\<close> into \<open>allMatches\<close> is \<open>allMatches ++ matches\<close>.
\<close>

fun andMatcher_loop ::
  "Matcher list \<Rightarrow> NameAndCmdline \<Rightarrow> CaptureSet \<Rightarrow> bool \<times> CaptureSet option" where
  "andMatcher_loop [] nacl allMatches = (True, Some allMatches)"
| "andMatcher_loop (matcher # rest) nacl allMatches =
     (case Matcher_Match matcher nacl of
        (False, _) \<Rightarrow> (False, None)
      | (True, None) \<Rightarrow> andMatcher_loop rest nacl allMatches
      | (True, Some matches) \<Rightarrow> andMatcher_loop rest nacl (allMatches ++ matches))"

definition andMatcher_Match :: "Matcher list \<Rightarrow> NameAndCmdline \<Rightarrow> bool \<times> CaptureSet option" where
  "andMatcher_Match m nacl = andMatcher_loop m nacl Map.empty"

section \<open>Rules and the ordered rule set\<close>

record templateParams =
  Comm :: string
  ExeBase :: string
  ExeFull :: string
  Matches :: "CaptureSet option"

text \<open>
  A parsed \<open>*template.Template\<close> is used through \<open>Execute\<close> only, whose error the code
  drops: a template is the text \<open>Execute\<close> writes into the buffer for the parameters.
\<close>

type_synonym template = "templateParams \<Rightarrow> string"

record matchNamer =
  andMatcher :: "Matcher list"
  templateNamer :: template

definition matchNamer_MatchAndName :: "matchNamer \<Rightarrow> NameAndCmdline \<Rightarrow> bool \<times> string" where
  "matchNamer_MatchAndName m nacl =
     (case andMatcher_Match (andMatcher m) nacl of
        (False, _) \<Rightarrow> (False, [])
      | (True, matches) \<Rightarrow>
          let (exebase, exefull) =
                (case Cmdline nacl of
                   [] \<Rightarrow> (Name nacl, Name nacl)
                 | arg0 # _ \<Rightarrow> (filepath_Base arg0, arg0))
          in (True, templateNamer m
                      \<lparr>Comm = Name nacl, ExeBase = exebase, ExeFull = exefull,
                       Matches = matches\<rparr>))"

text \<open>\<open>FirstMatcher\<close> is the slice of rules; its \<open>MatchAndName\<close> is the classifier.\<close>

type_synonym FirstMatcher = "matchNamer list"

fun FirstMatcher_MatchAndName :: "FirstMatcher \<Rightarrow> NameAndCmdline \<Rightarrow> bool \<times> string" where
  "FirstMatcher_MatchAndName [] nacl = (False, [])"
| "FirstMatcher_MatchAndName (m # rest) nacl =
     (case matchNamer_MatchAndName m nacl of
        (True, name) \<Rightarrow> (True, name)
      | (False, _) \<Rightarrow> FirstMatcher_MatchAndName rest nacl)"

section \<open>Reading one rule of the configuration\<close>

text \<open>
  What \<open>yaml.Unmarshal\<close> hands to \<open>getMatchNamer\<close>: a string, a list, a map (its entries
  in the order the \<open>range\<close> loop visits them) or any other value.
\<close>

datatype yaml = YString string | YList "yaml list" | YMap "(yaml \<times> yaml) list" | YOther

datatype config_error =
    NotAMap
  | NonStringKey
  | NonStringValue string
  | NonStringArrayValue string
  | NonStringInList nat string
  | BadCmdlineRegex string
  | NoMatchers
  | BadNameTemplate string
  | BadEntry nat config_error

text \<open>The loop that turns the values of one key into \<open>strs\<close>.\<close>

fun collect_strings :: "string \<Rightarrow> yaml list \<Rightarrow> nat \<Rightarrow> string list \<Rightarrow> config_error + string list" where
  "collect_strings key [] i strs = Inr strs"
| "collect_strings key (YString s # vals) i strs = collect_strings key vals (Suc i) (strs @ [s])"
| "collect_strings key (_ # vals) i strs = Inl (NonStringInList i key)"

text \<open>The loop over the entries of the map: it fills \<open>smap\<close> and \<open>nametmpl\<close>.\<close>

fun read_entries ::
  "(yaml \<times> yaml) list \<Rightarrow> (string \<rightharpoonup> string list) \<Rightarrow> string \<Rightarrow>
   config_error + (string \<rightharpoonup> string list) \<times> string" where
  "read_entries [] smap nametmpl = Inr (smap, nametmpl)"
| "read_entries ((YString key, v) # nm) smap nametmpl =
     (if key = ''name'' then
        (case v of
           YString val \<Rightarrow> read_entries nm smap val
         | _ \<Rightarrow> Inl (NonStringValue key))
      else
        (case v of
           YList vals \<Rightarrow>
             (case collect_strings key vals 0 [] of
                Inl err \<Rightarrow> Inl err
              | Inr strs \<Rightarrow> read_entries nm (smap(key \<mapsto> strs)) nametmpl)
         | _ \<Rightarrow> Inl (NonStringArrayValue key)))"
| "read_entries ((_, v) # nm) smap nametmpl = Inl NonStringKey"

text \<open>
  The loop over the \<open>exe\<close> entries: an entry with a slash is stored under its basename
  with the full path, a bare name under itself with the empty path.
\<close>

fun exes_loop :: "string list \<Rightarrow> (string \<rightharpoonup> string) \<Rightarrow> (string \<rightharpoonup> string)" where
  "exes_loop [] exes = exes"
| "exes_loop (e # exe) exes =
     exes_loop exe
       (if strings_Contains e ''/'' then exes(filepath_Base e \<mapsto> e) else exes(e \<mapsto> []))"

text \<open>
  The loop over the \<open>cmdline\<close> entries. \<open>regexp.Compile\<close> is the parameter \<open>compile\<close>;
  \<open>None\<close> is its error.
\<close>

fun compile_loop ::
  "(string \<Rightarrow> regexp option) \<Rightarrow> string list \<Rightarrow> regexp list \<Rightarrow> config_error + regexp list" where
  "compile_loop compile [] rs = Inr rs"
| "compile_loop compile (c # cmdline) rs =
     (case compile c of
        None \<Rightarrow> Inl (BadCmdlineRegex c)
      | Some r \<Rightarrow> compile_loop compile cmdline (rs @ [r]))"

text \<open>
  The second half of \<open>getMatchNamer\<close>, from \<open>smap\<close> and \<open>nametmpl\<close> on. Parsing a
  template (\<open>template.New("cmdname").Parse\<close>) is the parameter \<open>parse\<close>; \<open>None\<close> is its
  error.
\<close>

definition build_matchNamer ::
  "(string \<Rightarrow> regexp option) \<Rightarrow> (string \<Rightarrow> template option) \<Rightarrow>
   (string \<rightharpoonup> string list) \<Rightarrow> string \<Rightarrow> config_error + matchNamer" where
  "build_matchNamer compile parse smap nametmpl =
     (let matchers0 = (case smap ''comm'' of
                         Some comm \<Rightarrow> [CommMatcher (set comm)]
                       | None \<Rightarrow> []);
          matchers1 = (case smap ''exe'' of
                         Some exe \<Rightarrow> matchers0 @ [ExeMatcher (exes_loop exe Map.empty)]
                       | None \<Rightarrow> matchers0)
      in (case (case smap ''cmdline'' of
                  Some cmdline \<Rightarrow>
                    (case compile_loop compile cmdline [] of
                       Inl err \<Rightarrow> Inl err
                     | Inr rs \<Rightarrow> Inr (matchers1 @ [CmdlineMatcher rs]))
                | None \<Rightarrow> Inr matchers1) of
            Inl err \<Rightarrow> Inl err
          | Inr matchers \<Rightarrow>
              (if length matchers = 0 then Inl NoMatchers
               else
                 (let nametmpl1 = (if nametmpl = [] then ''{{.ExeBase}}'' else nametmpl)
                  in (case parse nametmpl1 of
                        None \<Rightarrow> Inl (BadNameTemplate nametmpl1)
                      | Some tmpl \<Rightarrow>
                          Inr \<lparr>andMatcher = matchers, templateNamer = tmpl\<rparr>)))))"

definition getMatchNamer ::
  "(string \<Rightarrow> regexp option) \<Rightarrow> (string \<Rightarrow> template option) \<Rightarrow> yaml \<Rightarrow>
   config_error + matchNamer" where
  "getMatchNamer compile parse yamlmn =
     (case yamlmn of
        YMap nm \<Rightarrow>
          (case read_entries nm Map.empty [] of
             Inl err \<Rightarrow> Inl err
           | Inr (smap, nametmpl) \<Rightarrow> build_matchNamer compile parse smap nametmpl)
      | _ \<Rightarrow> Inl NotAMap)"

text \<open>The loop of \<open>GetConfig\<close> over the entries of \<open>process_names\<close>, in their order.\<close>

fun GetConfig_loop ::
  "(string \<Rightarrow> regexp option) \<Rightarrow> (string \<Rightarrow> template option) \<Rightarrow> yaml list \<Rightarrow> nat \<Rightarrow>
   FirstMatcher \<Rightarrow> config_error + FirstMatcher" where
  "GetConfig_loop compile parse [] i cfg = Inr cfg"
| "GetConfig_loop compile parse (procname # procnames) i cfg =
     (case getMatchNamer compile parse procname of
        Inl err \<Rightarrow> Inl (BadEntry i err)
      | Inr mn \<Rightarrow> GetConfig_loop compile parse procnames (Suc i) (cfg @ [mn]))"

section \<open>Two concrete regular expressions\<close>

text \<open>
  The expressions of the configuration \<open>cmdline: ["^worker", "--role=(?P<role>\\w+)"]\<close>,
  written out as what package \<open>regexp\<close> computes for them. \<open>^worker\<close> has no group and
  matches the six bytes at the start of the text. \<open>--role=(?P<role>\w+)\<close> has the group
  \<open>role\<close>; its match starts at the leftmost place where \<open>--role=\<close> is followed by a word
  character (\<open>[0-9A-Za-z_]\<close>), and the group takes all word characters that follow.
\<close>

definition is_word_char :: "char \<Rightarrow> bool" where
  "is_word_char c =
     (c \<in> set ''0123456789ABCDEFGHIJKLMNOPQRSTUVWXYZ_abcdefghijklmnopqrstuvwxyz'')"

definition re_worker :: regexp where
  "re_worker =
     \<lparr>SubexpNames = [[]],
      FindStringSubmatch = (\<lambda>s. if take 6 s = ''worker'' then Some [''worker''] else None)\<rparr>"

fun find_role :: "string \<Rightarrow> string list option" where
  "find_role [] = None"
| "find_role (c # cs) =
     (let w = takeWhile is_word_char (drop 7 (c # cs))
      in if take 7 (c # cs) = ''--role='' \<and> w \<noteq> [] then Some [''--role='' @ w, w]
         else find_role cs)"

definition re_role :: regexp where
  "re_role = \<lparr>SubexpNames = [[], ''role''], FindStringSubmatch = find_role\<rparr>"

section \<open>The aggregation pass\<close>

text \<open>
  What the pass reads from outside, as values. A Go error is its message. \<open>ProcStat\<close>
  holds the fields of \<open>procfs.ProcStat\<close> the pass uses, as 64-bit words: \<open>STime\<close>,
  \<open>UTime\<close> and \<open>Starttime\<close> are unsigned, and \<open>uint64(x)\<close> of the Go \<open>int\<close> results of
  \<open>VirtualMemory()\<close>, \<open>ResidentMemory()\<close> and of \<open>NumThreads\<close> keeps their bits.
\<close>

record ProcStat =
  stat_Comm :: string
  stat_STime :: "64 word"
  stat_UTime :: "64 word"
  stat_VirtualMemory :: "64 word"
  stat_ResidentMemory :: "64 word"
  stat_NumThreads :: "64 word"
  stat_Starttime :: "64 word"

text \<open>
  One process handle of \<open>procfs.AllProcs()\<close> with the answers of the calls the pass
  makes on it: \<open>p.NewStat()\<close>, \<open>p.CmdLine()\<close>, and \<open>os.Stat\<close> of its stat file, which
  fails or gives a file info whose \<open>Sys()\<close> is a \<open>*syscall.Stat_t\<close> with an owner id
  (\<open>Some uid\<close>) or is not (\<open>None\<close>).
\<close>

record Proc =
  PID :: int
  NewStat :: "string + ProcStat"
  CmdLine :: "string + string list"
  os_Stat :: "string + nat option"

text \<open>
  The system: the process table, \<open>procfs.NewStat()\<close> (the \<open>BootTime\<close> of the returned
  value, converted to \<open>uint64\<close>, and the error) and \<open>user.LookupId\<close>.
\<close>

record System =
  AllProcs :: "string + Proc list"
  procfs_NewStat :: "64 word \<times> string option"
  user_LookupId :: "nat \<Rightarrow> string + string"

definition userHZ :: real where
  "userHZ = 100"

text \<open>\<open>groupKey\<close> is the struct of two strings \<open>(account, groupname)\<close>.\<close>

type_synonym groupKey = "string \<times> string"

text \<open>
  \<open>float64\<close> fields are real numbers here: the pass adds and compares values converted
  from unsigned integers, which are never NaN; rounding is left out.
\<close>

record procGroup =
  name :: string
  account :: string
  cpuSystem :: real
  cpuUser :: real
  memVirt :: "64 word"
  memRss :: "64 word"
  numProcs :: "64 word"
  numThreads :: "64 word"
  oldestStartTime :: real

text \<open>
  The collector, as far as the pass uses it: the classifier (an interface value,
  \<open>None\<close> when it is nil) and the error counter \<open>c.errors.scrape\<close>, a Go \<open>int\<close> of 64 bits.
\<close>

record procCollector =
  matchnamer :: "FirstMatcher option"
  errors_scrape :: "64 word"

definition count_scrape_error :: "procCollector \<Rightarrow> procCollector" where
  "count_scrape_error c = c\<lparr>errors_scrape := errors_scrape c + 1\<rparr>"

text \<open>
  \<open>getProcAccount\<close>: the name and the error it returns. When \<open>Sys()\<close> is not a
  \<open>*syscall.Stat_t\<close> it returns the \<open>err\<close> of \<open>os.Stat\<close>, which is nil there.
\<close>

definition getProcAccount :: "(nat \<Rightarrow> string + string) \<Rightarrow> Proc \<Rightarrow> string \<times> string option" where
  "getProcAccount lookupId p =
     (case os_Stat p of
        Inl err \<Rightarrow> ([], Some err)
      | Inr None \<Rightarrow> ([], None)
      | Inr (Some uid) \<Rightarrow>
          (case lookupId uid of
             Inl err \<Rightarrow> ([], Some err)
           | Inr username \<Rightarrow> (username, None)))"

definition startTime_of :: "64 word \<Rightarrow> ProcStat \<Rightarrow> real" where
  "startTime_of bootTime stat = real (unat bootTime) + real (unat (stat_Starttime stat)) / userHZ"

text \<open>The block \<open>// update group\<close>: one process folded into its accumulator.\<close>

definition update_group :: "64 word \<Rightarrow> ProcStat \<Rightarrow> procGroup \<Rightarrow> procGroup" where
  "update_group bootTime stat g =
     g\<lparr>cpuSystem := cpuSystem g + real (unat (stat_STime stat)) / userHZ,
       cpuUser := cpuUser g + real (unat (stat_UTime stat)) / userHZ,
       memVirt := memVirt g + stat_VirtualMemory stat,
       memRss := memRss g + stat_ResidentMemory stat,
       numProcs := numProcs g + 1,
       numThreads := numThreads g + stat_NumThreads stat,
       oldestStartTime :=
         (if oldestStartTime g = 0 \<or> startTime_of bootTime stat < oldestStartTime g
          then startTime_of bootTime stat else oldestStartTime g)\<rparr>"

text \<open>\<open>&procGroup{name: gname, account: account}\<close>: every other field is zero.\<close>

definition new_procGroup :: "string \<Rightarrow> string \<Rightarrow> procGroup" where
  "new_procGroup gname acct =
     \<lparr>name = gname, account = acct, cpuSystem = 0, cpuUser = 0, memVirt = 0, memRss = 0,
      numProcs = 0, numThreads = 0, oldestStartTime = 0\<rparr>"

text \<open>
  How one round of the loop over the processes ends: it goes on with the collector and
  the groups, or the call of \<open>MatchAndName\<close> on a nil interface panics.
\<close>

datatype outcome =
    Continue procCollector "groupKey \<rightharpoonup> procGroup"
  | Panicked procCollector

definition loop_body ::
  "(nat \<Rightarrow> string + string) \<Rightarrow> 64 word \<Rightarrow> procCollector \<Rightarrow> (groupKey \<rightharpoonup> procGroup) \<Rightarrow> Proc \<Rightarrow>
   outcome" where
  "loop_body lookupId bootTime c procGroups p =
     (case NewStat p of
        Inl err \<Rightarrow> Continue (count_scrape_error c) procGroups
      | Inr stat \<Rightarrow>
          (case CmdLine p of
             Inl err \<Rightarrow> Continue (count_scrape_error c) procGroups
           | Inr cmdline \<Rightarrow>
               (case matchnamer c of
                  None \<Rightarrow> Panicked c
                | Some f \<Rightarrow>
                    (case FirstMatcher_MatchAndName f \<lparr>Name = stat_Comm stat, Cmdline = cmdline\<rparr> of
                       (False, _) \<Rightarrow> Continue c procGroups
                     | (True, gname) \<Rightarrow>
                         let (acct, err) = getProcAccount lookupId p;
                             c1 = (if err \<noteq> None then count_scrape_error c else c);
                             gkey = (acct, gname);
                             g = (case procGroups gkey of
                                    None \<Rightarrow> new_procGroup gname acct
                                  | Some g0 \<Rightarrow> g0)
                         in Continue c1 (procGroups(gkey \<mapsto> update_group bootTime stat g))))))"

fun procs_loop ::
  "(nat \<Rightarrow> string + string) \<Rightarrow> 64 word \<Rightarrow> procCollector \<Rightarrow> (groupKey \<rightharpoonup> procGroup) \<Rightarrow>
   Proc list \<Rightarrow> outcome" where
  "procs_loop lookupId bootTime c procGroups [] = Continue c procGroups"
| "procs_loop lookupId bootTime c procGroups (p # procs) =
     (case loop_body lookupId bootTime c procGroups p of
        Continue c1 procGroups1 \<Rightarrow> procs_loop lookupId bootTime c1 procGroups1 procs
      | Panicked c1 \<Rightarrow> Panicked c1)"

text \<open>
  \<open>readProcGroups\<close>: the collector after the call, and what the call gives: the groups,
  the error of the process table, or no return at all.
\<close>

datatype pass_result =
    Groups "groupKey \<rightharpoonup> procGroup"
  | Failed string
  | Panic

definition readProcGroups :: "System \<Rightarrow> procCollector \<Rightarrow> procCollector \<times> pass_result" where
  "readProcGroups sys c =
     (case AllProcs sys of
        Inl err \<Rightarrow> (count_scrape_error c, Failed err)
      | Inr procs \<Rightarrow>
          let (bootTime, err) = procfs_NewStat sys;
              c1 = (if err \<noteq> None then count_scrape_error c else c)
          in (case procs_loop (user_LookupId sys) bootTime c1 Map.empty procs of
                Continue c2 procGroups \<Rightarrow> (c2, Groups procGroups)
              | Panicked c2 \<Rightarrow> (c2, Panic)))"

text \<open>
  \<open>main\<close>, as far as it chooses the classifier: the interface variable stays nil unless
  the flag \<open>config.path\<close> is set, and is the rule set of the configuration otherwise.
\<close>

definition main_matchnamer :: "string \<Rightarrow> FirstMatcher \<Rightarrow> FirstMatcher option" where
  "main_matchnamer configPath cfg_MatchNamers =
     (if configPath \<noteq> [] then Some cfg_MatchNamers else None)"

definition NewProcCollector :: "FirstMatcher option \<Rightarrow> procCollector" where
  "NewProcCollector mn = \<lparr>matchnamer = mn, errors_scrape = 0\<rparr>"

section \<open>Notions the properties are stated with\<close>

text \<open>The keys of the captures a \<open>Match\<close> returns; a nil map has none.\<close>

definition capture_keys :: "bool \<times> CaptureSet option \<Rightarrow> string set" where
  "capture_keys r = (case snd r of None \<Rightarrow> {} | Some m \<Rightarrow> dom m)"

text \<open>The names of the named groups of an expression: the non-empty entries.\<close>

definition named_groups :: "regexp \<Rightarrow> string set" where
  "named_groups r = set (filter (\<lambda>n. n \<noteq> []) (SubexpNames r))"

text \<open>The key under which the loop of \<open>getMatchNamer\<close> stores an \<open>exe\<close> entry.\<close>

definition exe_key :: "string \<Rightarrow> string" where
  "exe_key e = (if strings_Contains e ''/'' then filepath_Base e else e)"

text \<open>A process whose statistics or command line cannot be read.\<close>

definition unreadable :: "Proc \<Rightarrow> bool" where
  "unreadable p = (isl (NewStat p) \<or> isl (CmdLine p))"

definition add_scrape_errors :: "64 word \<Rightarrow> procCollector \<Rightarrow> procCollector" where
  "add_scrape_errors n c = c\<lparr>errors_scrape := errors_scrape c + n\<rparr>"

fun outcome_add_errors :: "64 word \<Rightarrow> outcome \<Rightarrow> outcome" where
  "outcome_add_errors n (Continue c G) = Continue (add_scrape_errors n c) G"
| "outcome_add_errors n (Panicked c) = Panicked (add_scrape_errors n c)"

text \<open>
  The bucket a process is folded into, with its statistics: none when the process is
  unreadable or unclassified.
\<close>

definition folded ::
  "FirstMatcher \<Rightarrow> (nat \<Rightarrow> string + string) \<Rightarrow> Proc \<Rightarrow> (groupKey \<times> ProcStat) option" where
  "folded f lookupId p =
     (case NewStat p of
        Inl err \<Rightarrow> None
      | Inr stat \<Rightarrow>
          (case CmdLine p of
             Inl err \<Rightarrow> None
           | Inr cmdline \<Rightarrow>
               (case FirstMatcher_MatchAndName f \<lparr>Name = stat_Comm stat, Cmdline = cmdline\<rparr> of
                  (False, _) \<Rightarrow> None
                | (True, gname) \<Rightarrow> Some ((fst (getProcAccount lookupId p), gname), stat))))"

text \<open>The statistics of the processes of the table folded into bucket \<open>k\<close>, in order.\<close>

fun members ::
  "FirstMatcher \<Rightarrow> (nat \<Rightarrow> string + string) \<Rightarrow> groupKey \<Rightarrow> Proc list \<Rightarrow> ProcStat list" where
  "members f lookupId k [] = []"
| "members f lookupId k (p # procs) =
     (case folded f lookupId p of
        None \<Rightarrow> members f lookupId k procs
      | Some (k1, stat) \<Rightarrow>
          if k1 = k then stat # members f lookupId k procs else members f lookupId k procs)"

definition fold_group :: "64 word \<Rightarrow> procGroup \<Rightarrow> ProcStat list \<Rightarrow> procGroup" where
  "fold_group bootTime g ms = foldl (\<lambda>g stat. update_group bootTime stat g) g ms"

text \<open>A classified process whose account cannot be resolved.\<close>

definition account_failed :: "FirstMatcher \<Rightarrow> (nat \<Rightarrow> string + string) \<Rightarrow> Proc \<Rightarrow> bool" where
  "account_failed f lookupId p =
     (folded f lookupId p \<noteq> None \<and> snd (getProcAccount lookupId p) \<noteq> None)"

text \<open>
  Following the specification (4.6, steps 6 and 7): the accumulator of bucket \<open>k\<close> after
  the statistics \<open>ms\<close> were folded into a new one. CPU seconds are ticks divided by 100;
  memory, threads and CPU seconds are summed; the processes are counted; the oldest
  start time is the minimum seen so far, where 0 stands for no value yet.
\<close>

definition accumulated :: "64 word \<Rightarrow> groupKey \<Rightarrow> ProcStat list \<Rightarrow> procGroup" where
  "accumulated bootTime k ms =
     \<lparr>name = snd k, account = fst k,
      cpuSystem = (\<Sum>stat\<leftarrow>ms. real (unat (stat_STime stat)) / 100),
      cpuUser = (\<Sum>stat\<leftarrow>ms. real (unat (stat_UTime stat)) / 100),
      memVirt = (\<Sum>stat\<leftarrow>ms. stat_VirtualMemory stat),
      memRss = (\<Sum>stat\<leftarrow>ms. stat_ResidentMemory stat),
      numProcs = of_nat (length ms),
      numThreads = (\<Sum>stat\<leftarrow>ms. stat_NumThreads stat),
      oldestStartTime =
        foldl (\<lambda>oldest stat.
                 if oldest = 0
                 then real (unat bootTime) + real (unat (stat_Starttime stat)) / 100
                 else min oldest (real (unat bootTime) + real (unat (stat_Starttime stat)) / 100))
          0 ms\<rparr>"

definition group_at :: "procCollector \<times> pass_result \<Rightarrow> groupKey \<Rightarrow> procGroup option" where
  "group_at r k = (case snd r of Groups G \<Rightarrow> G k | _ \<Rightarrow> None)"

definition group_oldest :: "procCollector \<times> pass_result \<Rightarrow> groupKey \<Rightarrow> real option" where
  "group_oldest r k =
     (case snd r of Groups G \<Rightarrow> map_option oldestStartTime (G k) | _ \<Rightarrow> None)"

section \<open>Concrete rules, processes and systems\<close>

definition first_rule :: matchNamer where
  "first_rule =
     \<lparr>andMatcher = [CommMatcher {''kthreadd''}], templateNamer = (\<lambda>params. ''first'')\<rparr>"

definition second_rule :: matchNamer where
  "second_rule =
     \<lparr>andMatcher = [CommMatcher {''kthreadd''}], templateNamer = (\<lambda>params. ''second'')\<rparr>"

definition kthread_rule :: matchNamer where
  "kthread_rule = \<lparr>andMatcher = [CommMatcher {''kthreadd''}], templateNamer = ExeBase\<rparr>"

text \<open>
  A template parser that knows two forms: the default template, and a text without
  action, which renders as itself.
\<close>

definition parse_plain_or_ExeBase :: "string \<Rightarrow> template option" where
  "parse_plain_or_ExeBase t =
     (if t = ''{{.ExeBase}}'' then Some ExeBase
      else if \<not> strings_Contains t ''{{'' then Some (\<lambda>params. t)
      else None)"

definition comm_entry :: "string \<Rightarrow> string \<Rightarrow> yaml" where
  "comm_entry comm nm =
     YMap [(YString ''comm'', YList [YString comm]), (YString ''name'', YString nm)]"

definition kthread_stat :: "64 word \<Rightarrow> ProcStat" where
  "kthread_stat start =
     \<lparr>stat_Comm = ''kthreadd'', stat_STime = 0, stat_UTime = 0, stat_VirtualMemory = 0,
      stat_ResidentMemory = 0, stat_NumThreads = 1, stat_Starttime = start\<rparr>"

definition kthread_proc :: "int \<Rightarrow> 64 word \<Rightarrow> Proc" where
  "kthread_proc pid start =
     \<lparr>PID = pid, NewStat = Inr (kthread_stat start), CmdLine = Inr [], os_Stat = Inr (Some 0)\<rparr>"

definition lookup_root :: "nat \<Rightarrow> string + string" where
  "lookup_root uid = (if uid = 0 then Inr ''root'' else Inl ''unknown userid'')"

text \<open>A system whose \<open>/proc/stat\<close> cannot be read: the boot time is the zero value.\<close>

definition no_boot_time :: "Proc list \<Rightarrow> System" where
  "no_boot_time procs =
     \<lparr>AllProcs = Inr procs, procfs_NewStat = (0, Some ''no /proc/stat''),
      user_LookupId = lookup_root\<rparr>"

text \<open>A process that is gone when the pass reads it.\<close>

definition vanished_proc :: "int \<Rightarrow> Proc" where
  "vanished_proc pid =
     \<lparr>PID = pid, NewStat = Inl ''no such process'', CmdLine = Inl ''no such process'',
      os_Stat = Inl ''no such file''\<rparr>"

text \<open>A system whose boot time is 1000 seconds.\<close>

definition booted :: "Proc list \<Rightarrow> System" where
  "booted procs =
     \<lparr>AllProcs = Inr procs, procfs_NewStat = (1000, None), user_LookupId = lookup_root\<rparr>"

text \<open>
  A process that has used CPU and memory, with its command name, start ticks and owner
  id; \<open>lookup_root\<close> knows the owner 0 only.
\<close>

definition loaded_stat :: "string \<Rightarrow> 64 word \<Rightarrow> ProcStat" where
  "loaded_stat comm start =
     \<lparr>stat_Comm = comm, stat_STime = 250, stat_UTime = 150, stat_VirtualMemory = 4096,
      stat_ResidentMemory = 1024, stat_NumThreads = 3, stat_Starttime = start\<rparr>"

definition loaded_proc :: "string \<Rightarrow> 64 word \<Rightarrow> nat \<Rightarrow> Proc" where
  "loaded_proc comm start uid =
     \<lparr>PID = 1, NewStat = Inr (loaded_stat comm start), CmdLine = Inr [], os_Stat = Inr (Some uid)\<rparr>"

section \<open>Lemmas\<close>

subsection \<open>Strings and paths\<close>

lemma strings_Contains_slash: "strings_Contains e ''/'' = (CHR ''/'' \<in> set e)"
  by (induction e) auto

lemma filepath_Base_nonempty: "filepath_Base p \<noteq> []"
  by (simp add: filepath_Base_def Let_def)

lemma filepath_Base_bare: "e \<noteq> [] \<Longrightarrow> CHR ''/'' \<notin> set e \<Longrightarrow> filepath_Base e = e"
proof -
  assume a: "e \<noteq> []" "CHR ''/'' \<notin> set e"
  have 1: "strip_trailing_slashes e = e"
    using a by (cases "rev e") (auto simp: strip_trailing_slashes_def)
  have tw: "takeWhile (\<lambda>c. c \<noteq> CHR ''/'') (rev e) = rev e"
    by (rule takeWhile_eq_all_conv[THEN iffD2]) (use a in auto)
  have 2: "last_element e = e"
    unfolding last_element_def tw by simp
  show ?thesis using a 1 2 by (simp add: filepath_Base_def Let_def)
qed

lemmas base_eval = filepath_Base_def strip_trailing_slashes_def last_element_def Let_def

subsection \<open>The captures of the command-line matcher\<close>

lemma assign_captures_dom:
  "length names = length caps \<Longrightarrow> dom (assign_captures names caps m) = dom m \<union> set names"
  by (induction names caps m rule: assign_captures.induct) auto

lemma assign_captures_other:
  "k \<notin> set names \<Longrightarrow> assign_captures names caps m k = m k"
  by (induction names caps m rule: assign_captures.induct) auto

lemma assign_captures_last:
  "length (ns1 @ k # ns2) = length caps \<Longrightarrow> k \<notin> set ns2 \<Longrightarrow>
   assign_captures (ns1 @ k # ns2) caps m k = Some (caps ! length ns1)"
proof (induction ns1 arbitrary: caps m)
  case Nil
  then obtain c cs where "caps = c # cs" by (cases caps) auto
  with Nil show ?case by (simp add: assign_captures_other)
next
  case (Cons a ns1)
  then obtain c cs where "caps = c # cs" by (cases caps) auto
  with Cons show ?case by simp
qed

lemma cmdline_regex_loop_dom:
  "cmdline_regex_loop rs s m0 = (True, Some m) \<Longrightarrow>
   dom m = dom m0 \<union> (\<Union>r\<in>set rs. set (SubexpNames r))"
  by (induction rs arbitrary: m0) (auto simp: assign_captures_dom split: option.splits if_splits)

lemma cmdline_regex_loop_other:
  "cmdline_regex_loop rs s m0 = (True, Some m) \<Longrightarrow> \<forall>r\<in>set rs. k \<notin> set (SubexpNames r) \<Longrightarrow>
   m k = m0 k"
  by (induction rs arbitrary: m0) (auto simp: assign_captures_other split: option.splits if_splits)

lemma cmdline_regex_loop_last:
  "cmdline_regex_loop (pre @ r # post) s m0 = (True, Some m) \<Longrightarrow>
   FindStringSubmatch r s = Some caps \<Longrightarrow> SubexpNames r = ns1 @ k # ns2 \<Longrightarrow> k \<notin> set ns2 \<Longrightarrow>
   \<forall>r'\<in>set post. k \<notin> set (SubexpNames r') \<Longrightarrow>
   m k = Some (caps ! length ns1)"
proof (induction pre arbitrary: m0)
  case Nil
  then show ?case
    using cmdline_regex_loop_other[of post s _ m k] assign_captures_last[of ns1 k ns2 caps m0]
    by (auto split: if_splits)
next
  case (Cons a pre)
  then show ?case by (auto split: option.splits if_splits)
qed

lemma cmdline_regex_loop_fst:
  "\<forall>r\<in>set rs. regexp_lengths_agree r \<Longrightarrow>
   fst (cmdline_regex_loop rs s m0) = (\<forall>r\<in>set rs. FindStringSubmatch r s \<noteq> None)"
  by (induction rs arbitrary: m0) (auto simp: regexp_lengths_agree_def split: option.splits)

lemma cmdline_regex_loop_fail:
  "\<not> fst (cmdline_regex_loop rs s m0) \<Longrightarrow> cmdline_regex_loop rs s m0 = (False, None)"
  by (induction rs arbitrary: m0) (auto split: option.splits)

lemma cmdline_regex_loop_none:
  "\<exists>r\<in>set rs. FindStringSubmatch r s = None \<Longrightarrow> cmdline_regex_loop rs s m0 = (False, None)"
  by (induction rs arbitrary: m0) (auto split: option.splits)

lemma cmdline_regex_loop_some:
  "\<forall>r\<in>set rs. regexp_lengths_agree r \<Longrightarrow> \<forall>r\<in>set rs. FindStringSubmatch r s \<noteq> None \<Longrightarrow>
   \<exists>m. cmdline_regex_loop rs s m0 = (True, Some m)"
  by (induction rs arbitrary: m0) (auto simp: regexp_lengths_agree_def split: option.splits)

lemma named_groups_Un:
  "(\<Union>r\<in>set rs. set (SubexpNames r)) - {[]} = (\<Union>r\<in>set rs. named_groups r)"
  by (auto simp: named_groups_def)

lemma find_role_length: "find_role s = Some caps \<Longrightarrow> length caps = 2"
  by (induction s) (auto simp: Let_def split: if_splits)

lemma re_worker_agree: "regexp_lengths_agree re_worker"
  by (auto simp: regexp_lengths_agree_def re_worker_def split: if_splits)

lemma re_role_agree: "regexp_lengths_agree re_role"
  by (auto simp: regexp_lengths_agree_def re_role_def dest: find_role_length)

subsection \<open>The map of the executable matcher\<close>

lemma exe_key_Base: "exe_key e' = exe_key e \<Longrightarrow> filepath_Base e' = filepath_Base e"
  unfolding exe_key_def strings_Contains_slash
  by (metis filepath_Base_bare filepath_Base_nonempty)

lemma exes_loop_other:
  "\<forall>e\<in>set es. exe_key e \<noteq> k \<Longrightarrow> exes_loop es m k = m k"
  by (induction es arbitrary: m) (auto simp: exe_key_def)

lemma exes_loop_last:
  "\<forall>e'\<in>set post. exe_key e' \<noteq> exe_key e \<Longrightarrow>
   exes_loop (pre @ e # post) m (exe_key e) = Some (if strings_Contains e ''/'' then e else [])"
proof (induction pre arbitrary: m)
  case Nil
  then show ?case using exes_loop_other[of post "exe_key e"] by (auto simp: exe_key_def)
next
  case (Cons a pre)
  then show ?case by simp
qed

lemma exe_fullpath:
  assumes "strings_Contains e ''/''" "\<forall>e'\<in>set post. filepath_Base e' \<noteq> filepath_Base e"
    "Cmdline nacl = arg0 # args" "filepath_Base arg0 = filepath_Base e"
  shows "exeMatcher_Match (exes_loop (pre @ e # post) Map.empty) nacl = (arg0 = e, None)"
proof -
  have "\<forall>e'\<in>set post. exe_key e' \<noteq> exe_key e" using assms(2) exe_key_Base by blast
  from exes_loop_last[OF this, of pre Map.empty] assms
  have "exes_loop (pre @ e # post) Map.empty (filepath_Base arg0) = Some e"
    by (simp add: exe_key_def)
  moreover have "e \<noteq> []" using assms(1) by auto
  ultimately show ?thesis using assms(3) by (auto simp: exeMatcher_Match_def)
qed

lemma exe_bare:
  assumes "\<not> strings_Contains e ''/''" "\<forall>e'\<in>set post. filepath_Base e' \<noteq> filepath_Base e"
    "Cmdline nacl = arg0 # args" "filepath_Base arg0 = e"
  shows "exeMatcher_Match (exes_loop (pre @ e # post) Map.empty) nacl = (True, None)"
proof -
  have "\<forall>e'\<in>set post. exe_key e' \<noteq> exe_key e" using assms(2) exe_key_Base by blast
  from exes_loop_last[OF this, of pre Map.empty] assms
  have "exes_loop (pre @ e # post) Map.empty (filepath_Base arg0) = Some []"
    by (simp add: exe_key_def)
  then show ?thesis using assms(3) by (auto simp: exeMatcher_Match_def)
qed

lemma find_snoc:
  "find P (xs @ [a]) = (case find P xs of None \<Rightarrow> (if P a then Some a else None) | Some x \<Rightarrow> Some x)"
  by (induction xs) auto

lemma exes_loop_find:
  "exes_loop es m k =
     (case find (\<lambda>e. exe_key e = k) (rev es) of
        None \<Rightarrow> m k
      | Some e \<Rightarrow> Some (if strings_Contains e ''/'' then e else []))"
proof (induction es arbitrary: m)
  case Nil
  then show ?case by simp
next
  case (Cons a es)
  have "exes_loop (a # es) m =
      exes_loop es (m(exe_key a \<mapsto> (if strings_Contains a ''/'' then a else [])))"
    by (simp add: exe_key_def)
  then show ?case
    by (simp add: Cons.IH find_snoc split: option.splits)
qed

lemma exe_key_Base_tok: "exe_key e = filepath_Base tok \<Longrightarrow> filepath_Base e = filepath_Base tok"
  unfolding exe_key_def strings_Contains_slash
  by (metis filepath_Base_bare filepath_Base_nonempty)

lemma exeMatcher_characterised:
  "Cmdline nacl = tok # args \<Longrightarrow>
   exeMatcher_Match (exes_loop exe Map.empty) nacl =
     (case find (\<lambda>e. exe_key e = filepath_Base tok) (rev exe) of
        None \<Rightarrow> (False, None)
      | Some e \<Rightarrow> (\<not> strings_Contains e ''/'' \<or> tok = e, None))"
proof -
  assume c: "Cmdline nacl = tok # args"
  have ne: "\<And>e. strings_Contains e ''/'' \<Longrightarrow> e \<noteq> []" by auto
  show ?thesis
    using c ne by (auto simp: exeMatcher_Match_def exes_loop_find split: option.splits)
qed

lemma exe_not_configured:
  assumes "Cmdline nacl = tok # args" "\<forall>e\<in>set exe. filepath_Base e \<noteq> filepath_Base tok"
  shows "exeMatcher_Match (exes_loop exe Map.empty) nacl = (False, None)"
proof -
  have "\<forall>e\<in>set exe. exe_key e \<noteq> filepath_Base tok"
    using assms(2) exe_key_Base_tok by blast
  then have "exes_loop exe Map.empty (filepath_Base tok) = None"
    by (simp add: exes_loop_other)
  then show ?thesis using assms(1) by (simp add: exeMatcher_Match_def)
qed

lemma exe_single_fullpath:
  assumes "strings_Contains e ''/''" "Cmdline nacl = tok # args"
  shows "exeMatcher_Match (exes_loop [e] Map.empty) nacl = (tok = e, None)"
  using assms by (auto simp: exeMatcher_Match_def)

lemma exe_single_bare:
  assumes "\<not> strings_Contains e ''/''" "Cmdline nacl = tok # args"
  shows "exeMatcher_Match (exes_loop [e] Map.empty) nacl = (filepath_Base tok = e, None)"
  using assms by (auto simp: exeMatcher_Match_def)

lemma build_matchNamer_exe:
  "build_matchNamer compile parse smap t = Inr mn \<Longrightarrow> smap ''exe'' = Some exe \<Longrightarrow>
   ExeMatcher (exes_loop exe Map.empty) \<in> set (andMatcher mn)"
  by (auto simp: build_matchNamer_def Let_def split: option.splits sum.splits if_splits)

subsection \<open>The loop of the conjunction\<close>

lemma andMatcher_loop_fst:
  "fst (andMatcher_loop ms nacl a) = (\<forall>m\<in>set ms. fst (Matcher_Match m nacl))"
  by (induction ms arbitrary: a) (auto split: prod.splits bool.splits option.splits)

lemma andMatcher_loop_fail:
  "\<not> fst (andMatcher_loop ms nacl a) \<Longrightarrow> andMatcher_loop ms nacl a = (False, None)"
  by (induction ms arbitrary: a) (auto split: prod.splits bool.splits option.splits)

lemma andMatcher_loop_some:
  "fst (andMatcher_loop ms nacl a) \<Longrightarrow> \<exists>merged. andMatcher_loop ms nacl a = (True, Some merged)"
  by (induction ms arbitrary: a) (auto split: prod.splits bool.splits option.splits)

lemma andMatcher_loop_dom:
  "andMatcher_loop ms nacl a = (True, Some merged) \<Longrightarrow>
   dom merged = dom a \<union> (\<Union>m\<in>set ms. case snd (Matcher_Match m nacl) of None \<Rightarrow> {} | Some c \<Rightarrow> dom c)"
  by (induction ms arbitrary: a) (auto split: prod.splits bool.splits option.splits)

lemma andMatcher_loop_other:
  "andMatcher_loop ms nacl a = (True, Some merged) \<Longrightarrow>
   \<forall>m\<in>set ms. \<forall>c. snd (Matcher_Match m nacl) = Some c \<longrightarrow> c k = None \<Longrightarrow> merged k = a k"
  by (induction ms arbitrary: a) (auto simp: map_add_def split: prod.splits bool.splits option.splits)

lemma andMatcher_loop_last:
  "andMatcher_loop (pre @ m # post) nacl a = (True, Some merged) \<Longrightarrow>
   snd (Matcher_Match m nacl) = Some c \<Longrightarrow> c k = Some v \<Longrightarrow>
   \<forall>m'\<in>set post. \<forall>c'. snd (Matcher_Match m' nacl) = Some c' \<longrightarrow> c' k = None \<Longrightarrow>
   merged k = Some v"
proof (induction pre arbitrary: a)
  case Nil
  then show ?case
    using andMatcher_loop_other[of post nacl "a ++ c" merged k]
    by (auto simp: map_add_def split: prod.splits bool.splits option.splits)
next
  case (Cons x pre)
  then show ?case by (auto split: prod.splits bool.splits option.splits)
qed

subsection \<open>Rules and their names\<close>

lemmas classify_eval = matchNamer_MatchAndName_def andMatcher_Match_def commMatcher_Match_def
  Let_def

lemma FirstMatcher_none:
  "\<forall>m\<in>set f. \<not> fst (matchNamer_MatchAndName m nacl) \<Longrightarrow> FirstMatcher_MatchAndName f nacl = (False, [])"
  by (induction f) (auto split: prod.splits bool.splits)

lemma FirstMatcher_first:
  "\<forall>m\<in>set pre. \<not> fst (matchNamer_MatchAndName m nacl) \<Longrightarrow>
   matchNamer_MatchAndName A nacl = (True, n) \<Longrightarrow>
   FirstMatcher_MatchAndName (pre @ A # post) nacl = (True, n)"
  by (induction pre) (auto split: prod.splits bool.splits)

lemma read_entries_noname:
  "read_entries nm smap t = Inr (smap', t') \<Longrightarrow> \<forall>v. (YString ''name'', v) \<notin> set nm \<Longrightarrow> t' = t"
proof (induction nm arbitrary: smap t)
  case Nil
  then show ?case by simp
next
  case (Cons kv nm)
  obtain k v where kv: "kv = (k, v)" by (cases kv)
  show ?case
  proof (cases k)
    case (YString key)
    with Cons.prems kv have ne: "key \<noteq> ''name''" by auto
    with Cons.prems kv YString obtain vals strs where
      "v = YList vals" "collect_strings key vals 0 [] = Inr strs" and
      h: "read_entries nm (smap(key \<mapsto> strs)) t = Inr (smap', t')"
      by (auto split: yaml.splits sum.splits)
    have "\<forall>v. (YString ''name'', v) \<notin> set nm" using Cons.prems(2) by simp
    from Cons.IH[OF h this] show ?thesis .
  qed (use Cons.prems kv in auto)
qed

lemma build_default:
  "build_matchNamer compile parse smap [] = Inr mn \<Longrightarrow> parse ''{{.ExeBase}}'' = Some ExeBase \<Longrightarrow>
   templateNamer mn = ExeBase"
  by (auto simp: build_matchNamer_def Let_def split: option.splits sum.splits if_splits)

lemma matchNamer_default:
  "templateNamer mn = ExeBase \<Longrightarrow> matchNamer_MatchAndName mn nacl = (True, n) \<Longrightarrow>
   n = (case Cmdline nacl of [] \<Rightarrow> Name nacl | arg0 # _ \<Rightarrow> filepath_Base arg0)"
  by (auto simp: matchNamer_MatchAndName_def Let_def split: prod.splits bool.splits list.splits)

lemma GetConfig_loop_order:
  "GetConfig_loop compile parse procnames i cfg = Inr f \<Longrightarrow>
   \<exists>rules. map (getMatchNamer compile parse) procnames = map Inr rules \<and> f = cfg @ rules"
proof (induction procnames arbitrary: i cfg)
  case Nil
  then show ?case by simp
next
  case (Cons y ys)
  from Cons.prems obtain mn where mn: "getMatchNamer compile parse y = Inr mn"
    and rest: "GetConfig_loop compile parse ys (Suc i) (cfg @ [mn]) = Inr f"
    by (auto split: sum.splits)
  from Cons.IH[OF rest] obtain rules where
    "map (getMatchNamer compile parse) ys = map Inr rules" "f = (cfg @ [mn]) @ rules" by blast
  then have "map (getMatchNamer compile parse) (y # ys) = map Inr (mn # rules) \<and> f = cfg @ (mn # rules)"
    using mn by simp
  then show ?case by blast
qed

subsection \<open>One round of the loop over the processes\<close>

lemmas round_eval = loop_body_def getProcAccount_def count_scrape_error_def update_group_def
  new_procGroup_def startTime_of_def userHZ_def

lemma loop_body_unmatched:
  "matchnamer c = Some f \<Longrightarrow> NewStat p = Inr stat \<Longrightarrow> CmdLine p = Inr cmdline \<Longrightarrow>
   \<not> fst (FirstMatcher_MatchAndName f \<lparr>Name = stat_Comm stat, Cmdline = cmdline\<rparr>) \<Longrightarrow>
   loop_body l b c G p = Continue c G"
  by (auto simp: loop_body_def split: prod.splits bool.splits)

lemma loop_body_matchnamer:
  "loop_body l b c G p = Continue c' G' \<Longrightarrow> matchnamer c' = matchnamer c"
  by (auto simp: loop_body_def count_scrape_error_def Let_def
      split: sum.splits option.splits prod.splits bool.splits if_splits)

lemma loop_body_unreadable:
  "unreadable p \<Longrightarrow> loop_body l b c G p = Continue (count_scrape_error c) G"
  by (auto simp: loop_body_def unreadable_def isl_def split: sum.splits)

lemma loop_body_no_panic:
  "matchnamer c = Some f \<Longrightarrow> \<exists>c' G'. loop_body l b c G p = Continue c' G'"
  by (auto simp: loop_body_def Let_def split: sum.splits prod.splits bool.splits)

lemma matchnamer_add [simp]: "matchnamer (add_scrape_errors n c) = matchnamer c"
  by (simp add: add_scrape_errors_def)

lemma add_add [simp]: "add_scrape_errors n (add_scrape_errors m c) = add_scrape_errors (m + n) c"
  by (simp add: add_scrape_errors_def ac_simps)

lemma count_add: "count_scrape_error (add_scrape_errors n c) = add_scrape_errors n (count_scrape_error c)"
  by (simp add: add_scrape_errors_def count_scrape_error_def ac_simps)

lemma count_is_add: "count_scrape_error c = add_scrape_errors 1 c"
  by (simp add: add_scrape_errors_def count_scrape_error_def)

lemma add_zero [simp]: "add_scrape_errors 0 c = c"
  by (simp add: add_scrape_errors_def)

lemma loop_body_add:
  "loop_body l b (add_scrape_errors n c) G p = outcome_add_errors n (loop_body l b c G p)"
  by (auto simp: loop_body_def Let_def count_add
      split: sum.splits option.splits prod.splits bool.splits)

lemma loop_body_groups:
  "matchnamer c = Some f \<Longrightarrow> loop_body l b c G p = Continue c' G' \<Longrightarrow>
   G' = (case folded f l p of
           None \<Rightarrow> G
         | Some (k, stat) \<Rightarrow>
             G(k \<mapsto> update_group b stat (case G k of None \<Rightarrow> new_procGroup (snd k) (fst k) | Some g \<Rightarrow> g)))"
  by (auto simp: loop_body_def folded_def Let_def
      split: sum.splits option.splits prod.splits bool.splits)

lemma getProcAccount_lookup_fails:
  "os_Stat p = Inr (Some uid) \<Longrightarrow> l uid = Inl err \<Longrightarrow> getProcAccount l p = ([], Some err)"
  by (simp add: getProcAccount_def)

lemma getProcAccount_err_empty:
  "getProcAccount l p = (acct, Some err) \<Longrightarrow> acct = []"
  by (auto simp: getProcAccount_def split: sum.splits option.splits)

lemma loop_body_account_fails:
  "matchnamer c = Some f \<Longrightarrow> NewStat p = Inr stat \<Longrightarrow> CmdLine p = Inr cmdline \<Longrightarrow>
   FirstMatcher_MatchAndName f \<lparr>Name = stat_Comm stat, Cmdline = cmdline\<rparr> = (True, gname) \<Longrightarrow>
   getProcAccount l p = (acct, Some err) \<Longrightarrow>
   loop_body l b c G p =
     Continue (count_scrape_error c)
       (G(([], gname) \<mapsto> update_group b stat
            (case G ([], gname) of None \<Rightarrow> new_procGroup gname [] | Some g \<Rightarrow> g)))"
  using getProcAccount_err_empty[of l p acct err]
  by (auto simp: loop_body_def Let_def)

subsection \<open>The whole loop and the pass\<close>

lemma outcome_add_add [simp]:
  "outcome_add_errors n (outcome_add_errors m r) = outcome_add_errors (m + n) r"
  by (cases r) simp_all

lemma outcome_add_zero [simp]: "outcome_add_errors 0 r = r"
  by (cases r) simp_all

lemma procs_loop_add:
  "procs_loop l b (add_scrape_errors n c) G ps = outcome_add_errors n (procs_loop l b c G ps)"
proof (induction ps arbitrary: c G)
  case Nil
  then show ?case by simp
next
  case (Cons p ps)
  show ?case
    by (cases "loop_body l b c G p") (simp_all add: loop_body_add Cons.IH)
qed

lemma procs_loop_skip:
  "matchnamer c = Some f \<Longrightarrow>
   procs_loop l b c G ps =
     outcome_add_errors (of_nat (length (filter unreadable ps)))
       (procs_loop l b c G (filter (\<lambda>p. \<not> unreadable p) ps))"
proof (induction ps arbitrary: c G)
  case Nil
  then show ?case by simp
next
  case (Cons p ps)
  show ?case
  proof (cases "unreadable p")
    case True
    have "procs_loop l b c G (p # ps) = procs_loop l b (add_scrape_errors 1 c) G ps"
      using True by (simp add: loop_body_unreadable count_is_add)
    also have "\<dots> = outcome_add_errors 1 (procs_loop l b c G ps)"
      by (rule procs_loop_add)
    finally show ?thesis using True Cons.IH[OF Cons.prems, of G] by (simp add: ac_simps)
  next
    case False
    from loop_body_no_panic[OF Cons.prems] obtain c1 G1 where
      lb: "loop_body l b c G p = Continue c1 G1" by blast
    then have "matchnamer c1 = Some f" using loop_body_matchnamer Cons.prems by metis
    from Cons.IH[OF this, of G1] lb False show ?thesis by simp
  qed
qed

lemma procs_loop_no_panic:
  "matchnamer c = Some f \<Longrightarrow> \<exists>c' G'. procs_loop l b c G ps = Continue c' G'"
proof (induction ps arbitrary: c G)
  case Nil
  then show ?case by simp
next
  case (Cons p ps)
  from loop_body_no_panic[OF Cons.prems] obtain c1 G1 where
    lb: "loop_body l b c G p = Continue c1 G1" by blast
  then have "matchnamer c1 = Some f" using loop_body_matchnamer Cons.prems by metis
  from Cons.IH[OF this, of G1] lb show ?case by simp
qed

lemma procs_loop_append:
  "procs_loop l b c G (xs @ ys) =
     (case procs_loop l b c G xs of
        Continue c1 G1 \<Rightarrow> procs_loop l b c1 G1 ys
      | Panicked c1 \<Rightarrow> Panicked c1)"
  by (induction xs arbitrary: c G) (auto split: outcome.splits)

lemma procs_loop_matchnamer:
  "procs_loop l b c G ps = Continue c' G' \<Longrightarrow> matchnamer c' = matchnamer c"
proof (induction ps arbitrary: c G)
  case Nil
  then show ?case by simp
next
  case (Cons p ps)
  from Cons.prems obtain c1 G1 where lb: "loop_body l b c G p = Continue c1 G1"
    and rest: "procs_loop l b c1 G1 ps = Continue c' G'"
    by (auto split: outcome.splits)
  from Cons.IH[OF rest] loop_body_matchnamer[OF lb] show ?case by simp
qed

lemma procs_loop_dom_mono:
  "procs_loop l b c G ps = Continue c' G' \<Longrightarrow> k \<in> dom G \<Longrightarrow> k \<in> dom G'"
proof (induction ps arbitrary: c G)
  case Nil
  then show ?case by simp
next
  case (Cons p ps)
  from Cons.prems(1) obtain c1 G1 where lb: "loop_body l b c G p = Continue c1 G1"
    and rest: "procs_loop l b c1 G1 ps = Continue c' G'"
    by (auto split: outcome.splits)
  have "k \<in> dom G1" using lb Cons.prems(2)
    by (auto simp: loop_body_def Let_def split: sum.splits option.splits prod.splits bool.splits if_splits)
  from Cons.IH[OF rest this] show ?case .
qed

lemma procs_loop_groups:
  "matchnamer c = Some f \<Longrightarrow> procs_loop l b c G ps = Continue c' G' \<Longrightarrow>
   G' k = (case members f l k ps of
             [] \<Rightarrow> G k
           | ms \<Rightarrow> Some (fold_group b (case G k of None \<Rightarrow> new_procGroup (snd k) (fst k) | Some g \<Rightarrow> g) ms))"
proof (induction ps arbitrary: c G)
  case Nil
  then show ?case by simp
next
  case (Cons p ps)
  from loop_body_no_panic[OF Cons.prems(1)] obtain c1 G1 where
    lb: "loop_body l b c G p = Continue c1 G1" by blast
  then have mn: "matchnamer c1 = Some f" using loop_body_matchnamer Cons.prems by metis
  have rest: "procs_loop l b c1 G1 ps = Continue c' G'" using Cons.prems(2) lb by simp
  note IH = Cons.IH[OF mn rest]
  note G1 = loop_body_groups[OF Cons.prems(1) lb]
  show ?case
  proof (cases "folded f l p")
    case None
    with IH G1 show ?thesis by (auto split: list.splits)
  next
    case (Some a)
    obtain k1 stat where a: "a = (k1, stat)" by (cases a)
    show ?thesis
    proof (cases "k1 = k")
      case True
      with IH G1 Some a show ?thesis
        by (auto simp: fold_group_def split: list.splits)
    next
      case False
      with IH G1 Some a show ?thesis by (auto split: list.splits)
    qed
  qed
qed

lemma procs_loop_nil_panics:
  "matchnamer c = None \<Longrightarrow> \<forall>q\<in>set pre. unreadable q \<Longrightarrow> \<not> unreadable p \<Longrightarrow>
   procs_loop l b c G (pre @ p # post) = Panicked (add_scrape_errors (of_nat (length pre)) c)"
proof (induction pre arbitrary: c)
  case Nil
  then show ?case
    by (auto simp: loop_body_def unreadable_def isl_def split: sum.splits)
next
  case (Cons q pre)
  have "matchnamer (count_scrape_error c) = None" using Cons.prems(1) by (simp add: count_scrape_error_def)
  from Cons.IH[OF this] Cons.prems show ?case
    by (simp add: loop_body_unreadable count_is_add ac_simps)
qed

lemma readProcGroups_skip:
  assumes "matchnamer c = Some f" "AllProcs sys = Inr procs"
  shows "\<exists>c' G. readProcGroups (sys\<lparr>AllProcs := Inr (filter (\<lambda>p. \<not> unreadable p) procs)\<rparr>) c = (c', Groups G)
             \<and> readProcGroups sys c = (add_scrape_errors (of_nat (length (filter unreadable procs))) c', Groups G)"
proof -
  obtain b err where ns: "procfs_NewStat sys = (b, err)" by (cases "procfs_NewStat sys")
  let ?c1 = "if err \<noteq> None then count_scrape_error c else c"
  have mn: "matchnamer ?c1 = Some f" using assms(1) by (simp add: count_scrape_error_def)
  from procs_loop_no_panic[OF mn] obtain c' G where
    f: "procs_loop (user_LookupId sys) b ?c1 Map.empty (filter (\<lambda>p. \<not> unreadable p) procs) = Continue c' G"
    by blast
  from procs_loop_skip[OF mn, of "user_LookupId sys" b Map.empty procs] f
  have a: "procs_loop (user_LookupId sys) b ?c1 Map.empty procs =
      Continue (add_scrape_errors (of_nat (length (filter unreadable procs))) c') G"
    by simp
  have "readProcGroups (sys\<lparr>AllProcs := Inr (filter (\<lambda>p. \<not> unreadable p) procs)\<rparr>) c = (c', Groups G)"
    using f ns by (simp add: readProcGroups_def)
  moreover have "readProcGroups sys c =
      (add_scrape_errors (of_nat (length (filter unreadable procs))) c', Groups G)"
    using a ns assms(2) by (simp add: readProcGroups_def)
  ultimately show ?thesis by blast
qed

lemma account_failure_bucket:
  assumes mn: "matchnamer c0 = Some f"
    and p: "NewStat p = Inr stat" "CmdLine p = Inr cmdline"
      "FirstMatcher_MatchAndName f \<lparr>Name = stat_Comm stat, Cmdline = cmdline\<rparr> = (True, gname)"
      "getProcAccount l p = (acct, Some err)"
    and run: "procs_loop l b c0 G0 (pre @ p # post) = Continue c' G'"
  shows "([], gname) \<in> dom G'"
proof -
  from run obtain c1 G1 where pre: "procs_loop l b c0 G0 pre = Continue c1 G1"
    and rest: "procs_loop l b c1 G1 (p # post) = Continue c' G'"
    by (auto simp: procs_loop_append split: outcome.splits)
  have mn1: "matchnamer c1 = Some f" using procs_loop_matchnamer[OF pre] mn by simp
  note lb = loop_body_account_fails[OF mn1 p, of b G1]
  from rest lb have "procs_loop l b (count_scrape_error c1)
      (G1(([], gname) \<mapsto> update_group b stat
            (case G1 ([], gname) of None \<Rightarrow> new_procGroup gname [] | Some g \<Rightarrow> g))) post = Continue c' G'"
    by simp
  from procs_loop_dom_mono[OF this] show ?thesis by simp
qed

lemma readProcGroups_nil_panics:
  assumes "matchnamer c = None" "AllProcs sys = Inr (pre @ p # post)"
    "\<forall>q\<in>set pre. unreadable q" "\<not> unreadable p"
  shows "readProcGroups sys c =
     (add_scrape_errors (of_nat (length pre))
        (if snd (procfs_NewStat sys) \<noteq> None then count_scrape_error c else c), Panic)"
proof -
  obtain b err where ns: "procfs_NewStat sys = (b, err)" by (cases "procfs_NewStat sys")
  let ?c1 = "if err \<noteq> None then count_scrape_error c else c"
  have mn: "matchnamer ?c1 = None" using assms(1) by (simp add: count_scrape_error_def)
  from procs_loop_nil_panics[OF mn assms(3,4), of "user_LookupId sys" b Map.empty post]
  show ?thesis using ns assms(2) by (simp add: readProcGroups_def)
qed

lemma update_group_fields:
  "update_group bootTime stat g =
     \<lparr>name = name g, account = account g,
      cpuSystem = cpuSystem g + real (unat (stat_STime stat)) / 100,
      cpuUser = cpuUser g + real (unat (stat_UTime stat)) / 100,
      memVirt = memVirt g + stat_VirtualMemory stat,
      memRss = memRss g + stat_ResidentMemory stat,
      numProcs = numProcs g + 1,
      numThreads = numThreads g + stat_NumThreads stat,
      oldestStartTime =
        (if oldestStartTime g = 0 \<or>
            real (unat bootTime) + real (unat (stat_Starttime stat)) / 100 < oldestStartTime g
         then real (unat bootTime) + real (unat (stat_Starttime stat)) / 100
         else oldestStartTime g)\<rparr>"
  by (simp add: update_group_def startTime_of_def userHZ_def)

lemma fold_group_fields:
  "fold_group b g ms =
     g\<lparr>cpuSystem := cpuSystem g + (\<Sum>stat\<leftarrow>ms. real (unat (stat_STime stat)) / 100),
       cpuUser := cpuUser g + (\<Sum>stat\<leftarrow>ms. real (unat (stat_UTime stat)) / 100),
       memVirt := memVirt g + (\<Sum>stat\<leftarrow>ms. stat_VirtualMemory stat),
       memRss := memRss g + (\<Sum>stat\<leftarrow>ms. stat_ResidentMemory stat),
       numProcs := numProcs g + of_nat (length ms),
       numThreads := numThreads g + (\<Sum>stat\<leftarrow>ms. stat_NumThreads stat),
       oldestStartTime :=
         foldl (\<lambda>oldest stat.
                 if oldest = 0
                 then real (unat b) + real (unat (stat_Starttime stat)) / 100
                 else min oldest (real (unat b) + real (unat (stat_Starttime stat)) / 100))
          (oldestStartTime g) ms\<rparr>"
proof (induction ms arbitrary: g)
  case Nil
  then show ?case by (simp add: fold_group_def)
next
  case (Cons stat ms)
  have "fold_group b g (stat # ms) = fold_group b (update_group b stat g) ms"
    by (simp add: fold_group_def)
  then show ?case
    by (simp add: Cons.IH update_group_def startTime_of_def userHZ_def min_def algebra_simps)
qed

lemma fold_group_fresh:
  "fold_group b (new_procGroup gname acct) ms = accumulated b (acct, gname) ms"
  by (simp add: fold_group_fields accumulated_def new_procGroup_def)

lemma unreadable_not_folded: "unreadable p \<Longrightarrow> folded f l p = None"
  by (auto simp: unreadable_def folded_def isl_def split: sum.splits)

lemma loop_body_errors:
  "matchnamer c = Some f \<Longrightarrow> loop_body l b c G p = Continue c' G' \<Longrightarrow>
   errors_scrape c' = errors_scrape c + (if unreadable p then 1 else 0)
                      + (if account_failed f l p then 1 else 0)"
  by (auto simp: loop_body_def account_failed_def folded_def unreadable_def count_scrape_error_def
      Let_def split: sum.splits prod.splits bool.splits if_splits)

lemma procs_loop_errors:
  "matchnamer c = Some f \<Longrightarrow> procs_loop l b c G ps = Continue c' G' \<Longrightarrow>
   errors_scrape c' = errors_scrape c + of_nat (length (filter unreadable ps))
                      + of_nat (length (filter (account_failed f l) ps))"
proof (induction ps arbitrary: c G)
  case Nil
  then show ?case by simp
next
  case (Cons p ps)
  from Cons.prems(2) obtain c1 G1 where lb: "loop_body l b c G p = Continue c1 G1"
    and rest: "procs_loop l b c1 G1 ps = Continue c' G'"
    by (auto split: outcome.splits)
  have mn1: "matchnamer c1 = Some f" using loop_body_matchnamer[OF lb] Cons.prems(1) by simp
  from Cons.IH[OF mn1 rest] loop_body_errors[OF Cons.prems(1) lb]
  show ?case by simp
qed

lemma members_mem:
  "p \<in> set procs \<Longrightarrow> folded f l p = Some (k, stat) \<Longrightarrow> stat \<in> set (members f l k procs)"
  by (induction procs) (auto split: option.splits)

lemma readProcGroups_exact:
  assumes mn: "matchnamer c = Some f" and ap: "AllProcs sys = Inr procs"
    and ns: "procfs_NewStat sys = (b, err)"
  shows "\<exists>c' G. readProcGroups sys c = (c', Groups G) \<and>
           errors_scrape c' =
             errors_scrape c + (if err \<noteq> None then 1 else 0)
             + of_nat (length (filter unreadable procs))
             + of_nat (length (filter (account_failed f (user_LookupId sys)) procs)) \<and>
           (\<forall>k. G k = (if members f (user_LookupId sys) k procs = [] then None
                       else Some (accumulated b k (members f (user_LookupId sys) k procs))))"
proof -
  let ?c1 = "if err \<noteq> None then count_scrape_error c else c"
  have mn1: "matchnamer ?c1 = Some f" using mn by (simp add: count_scrape_error_def)
  from procs_loop_no_panic[OF mn1] obtain c' G where
    run: "procs_loop (user_LookupId sys) b ?c1 Map.empty procs = Continue c' G"
    by blast
  have r: "readProcGroups sys c = (c', Groups G)"
    using run ns ap by (simp add: readProcGroups_def)
  have e: "errors_scrape c' =
             errors_scrape c + (if err \<noteq> None then 1 else 0)
             + of_nat (length (filter unreadable procs))
             + of_nat (length (filter (account_failed f (user_LookupId sys)) procs))"
    using procs_loop_errors[OF mn1 run] by (simp add: count_scrape_error_def)
  have g: "\<forall>k. G k = (if members f (user_LookupId sys) k procs = [] then None
                       else Some (accumulated b k (members f (user_LookupId sys) k procs)))"
    using procs_loop_groups[OF mn1 run] by (auto simp: fold_group_fresh split: list.splits)
  from r e g show ?thesis by blast
qed

lemma folded_account_fails:
  "NewStat p = Inr stat \<Longrightarrow> CmdLine p = Inr cmdline \<Longrightarrow>
   FirstMatcher_MatchAndName f \<lparr>Name = stat_Comm stat, Cmdline = cmdline\<rparr> = (True, gname) \<Longrightarrow>
   getProcAccount l p = (acct, Some err) \<Longrightarrow>
   folded f l p = Some (([], gname), stat) \<and> account_failed f l p"
  using getProcAccount_err_empty[of l p acct err]
  by (simp add: folded_def account_failed_def)

lemma readProcGroups_account_fails:
  assumes mn: "matchnamer c = Some f" and ap: "AllProcs sys = Inr procs"
    and ns: "procfs_NewStat sys = (b, e)" and mem: "p \<in> set procs"
    and p: "NewStat p = Inr stat" "CmdLine p = Inr cmdline"
      "FirstMatcher_MatchAndName f \<lparr>Name = stat_Comm stat, Cmdline = cmdline\<rparr> = (True, gname)"
      "getProcAccount (user_LookupId sys) p = (acct, Some err)"
  shows "\<exists>c' G. readProcGroups sys c = (c', Groups G) \<and>
           p \<in> set (filter (account_failed f (user_LookupId sys)) procs) \<and>
           errors_scrape c' =
             errors_scrape c + (if e \<noteq> None then 1 else 0)
             + of_nat (length (filter unreadable procs))
             + of_nat (length (filter (account_failed f (user_LookupId sys)) procs)) \<and>
           stat \<in> set (members f (user_LookupId sys) ([], gname) procs) \<and>
           G ([], gname) =
             Some (accumulated b ([], gname) (members f (user_LookupId sys) ([], gname) procs))"
proof -
  from folded_account_fails[OF p]
  have fo: "folded f (user_LookupId sys) p = Some (([], gname), stat)"
    and af: "account_failed f (user_LookupId sys) p" by simp_all
  from members_mem[OF mem fo]
  have m: "stat \<in> set (members f (user_LookupId sys) ([], gname) procs)" .
  then have ne: "members f (user_LookupId sys) ([], gname) procs \<noteq> []" by auto
  from readProcGroups_exact[OF mn ap ns] obtain c' G where
    "readProcGroups sys c = (c', Groups G)"
    "errors_scrape c' =
             errors_scrape c + (if e \<noteq> None then 1 else 0)
             + of_nat (length (filter unreadable procs))
             + of_nat (length (filter (account_failed f (user_LookupId sys)) procs))"
    "\<forall>k. G k = (if members f (user_LookupId sys) k procs = [] then None
                       else Some (accumulated b k (members f (user_LookupId sys) k procs)))"
    by blast
  with ne m af mem show ?thesis by auto
qed

subsection \<open>The oldest start time\<close>

lemma oldest_update:
  "oldestStartTime (update_group b stat g) =
     (if oldestStartTime g = 0 \<or> startTime_of b stat < oldestStartTime g
      then startTime_of b stat else oldestStartTime g)"
  by (simp add: update_group_def)

lemma oldest_first: "oldestStartTime (update_group b stat (new_procGroup n a)) = startTime_of b stat"
  by (simp add: update_group_def new_procGroup_def)

lemma oldest_fold_nonzero:
  "\<forall>stat\<in>set ms. startTime_of b stat \<noteq> 0 \<Longrightarrow> oldestStartTime g \<noteq> 0 \<Longrightarrow>
   oldestStartTime (fold_group b g ms) = Min (insert (oldestStartTime g) (startTime_of b ` set ms))
   \<and> oldestStartTime (fold_group b g ms) \<noteq> 0"
proof (induction ms arbitrary: g)
  case Nil
  then show ?case by (simp add: fold_group_def)
next
  case (Cons stat ms)
  let ?g = "update_group b stat g"
  have o: "oldestStartTime ?g = min (oldestStartTime g) (startTime_of b stat)"
    using Cons.prems(2) by (auto simp: oldest_update min_def)
  have nz: "oldestStartTime ?g \<noteq> 0"
    using Cons.prems by (auto simp: o min_def)
  have all: "\<forall>stat\<in>set ms. startTime_of b stat \<noteq> 0" using Cons.prems(1) by simp
  have fg: "fold_group b g (stat # ms) = fold_group b ?g ms" by (simp add: fold_group_def)
  have "Min (insert (min (oldestStartTime g) (startTime_of b stat)) (startTime_of b ` set ms)) =
        Min (insert (oldestStartTime g) (insert (startTime_of b stat) (startTime_of b ` set ms)))"
    by (cases "ms = []") (simp_all add: min.assoc)
  with Cons.IH[OF all nz] show ?case by (simp add: fg o)
qed

lemma oldest_fold_fresh:
  assumes "ms \<noteq> []" "\<forall>stat\<in>set ms. startTime_of b stat \<noteq> 0" "oldestStartTime g = 0"
  shows "oldestStartTime (fold_group b g ms) = Min (startTime_of b ` set ms)
   \<and> oldestStartTime (fold_group b g ms) \<noteq> 0"
proof -
  from assms(1) obtain stat rest where ms: "ms = stat # rest" by (cases ms) auto
  let ?g = "update_group b stat g"
  have o: "oldestStartTime ?g = startTime_of b stat" using assms(3) by (simp add: oldest_update)
  then have nz: "oldestStartTime ?g \<noteq> 0" using assms(2) ms by simp
  have all: "\<forall>stat\<in>set rest. startTime_of b stat \<noteq> 0" using assms(2) ms by simp
  have fg: "fold_group b g (stat # rest) = fold_group b ?g rest" by (simp add: fold_group_def)
  from oldest_fold_nonzero[OF all nz] show ?thesis by (simp add: fg o ms)
qed

lemma startTime_nonzero: "(startTime_of b stat \<noteq> 0) = (b \<noteq> 0 \<or> stat_Starttime stat \<noteq> 0)"
proof -
  have "0 \<le> real (unat b)" "0 \<le> real (unat (stat_Starttime stat)) / 100"
    by (simp_all del: of_nat_unat)
  then have "(real (unat b) + real (unat (stat_Starttime stat)) / 100 = 0) =
      (real (unat b) = 0 \<and> real (unat (stat_Starttime stat)) / 100 = 0)"
    by (rule add_nonneg_eq_0_iff)
  then show ?thesis by (auto simp: startTime_of_def userHZ_def unsigned_eq_0_iff)
qed

lemma readProcGroups_oldest:
  assumes mn: "matchnamer c = Some f" and ap: "AllProcs sys = Inr procs"
    and ne: "members f (user_LookupId sys) k procs \<noteq> []"
    and nz: "\<forall>stat\<in>set (members f (user_LookupId sys) k procs).
               startTime_of (fst (procfs_NewStat sys)) stat \<noteq> 0"
  shows "\<exists>c' G g. readProcGroups sys c = (c', Groups G) \<and> G k = Some g \<and>
           oldestStartTime g =
             Min (startTime_of (fst (procfs_NewStat sys)) ` set (members f (user_LookupId sys) k procs)) \<and>
           oldestStartTime g \<noteq> 0"
proof -
  obtain b err where ns: "procfs_NewStat sys = (b, err)" by (cases "procfs_NewStat sys")
  let ?c1 = "if err \<noteq> None then count_scrape_error c else c"
  let ?ms = "members f (user_LookupId sys) k procs"
  have mn1: "matchnamer ?c1 = Some f" using mn by (simp add: count_scrape_error_def)
  from procs_loop_no_panic[OF mn1] obtain c' G where
    run: "procs_loop (user_LookupId sys) b ?c1 Map.empty procs = Continue c' G"
    by blast
  have r: "readProcGroups sys c = (c', Groups G)"
    using run ns ap by (simp add: readProcGroups_def)
  from procs_loop_groups[OF mn1 run, of k] ne
  have g: "G k = Some (fold_group b (new_procGroup (snd k) (fst k)) ?ms)"
    by (simp split: list.splits)
  have fresh: "oldestStartTime (new_procGroup (snd k) (fst k)) = 0"
    by (simp add: new_procGroup_def)
  from oldest_fold_fresh[OF ne _ fresh, of b] nz ns
  have "oldestStartTime (fold_group b (new_procGroup (snd k) (fst k)) ?ms) = Min (startTime_of b ` set ?ms)
     \<and> oldestStartTime (fold_group b (new_procGroup (snd k) (fst k)) ?ms) \<noteq> 0"
    by simp
  with r g ns show ?thesis by simp
qed

section \<open>The classifier\<close>

text \<open>
  Claim C1. \<open>FirstMatcher.MatchAndName\<close> tries the rules in the order of the slice, which
  \<open>GetConfig\<close> fills in the order of the configuration, and returns the name of the first
  rule that matches, whatever the rules after it would do. When no rule matches it
  returns \<open>(false, "")\<close>, and the round of the pass for such a process leaves the groups
  and the error counter as they were.
\<close>

theorem FirstMatcher_first_match_wins:
  "((\<forall>m\<in>set pre. \<not> fst (matchNamer_MatchAndName m nacl)) \<and>
      matchNamer_MatchAndName A nacl = (True, n)
      \<longrightarrow> FirstMatcher_MatchAndName (pre @ A # post) nacl = (True, n))
   \<and> ((\<forall>m\<in>set f. \<not> fst (matchNamer_MatchAndName m nacl))
      \<longrightarrow> FirstMatcher_MatchAndName f nacl = (False, []))
   \<and> (matchnamer c = Some f \<and> NewStat p = Inr stat \<and> CmdLine p = Inr cmdline \<and>
        \<not> fst (FirstMatcher_MatchAndName f \<lparr>Name = stat_Comm stat, Cmdline = cmdline\<rparr>)
      \<longrightarrow> loop_body lookupId bootTime c procGroups p = Continue c procGroups)
   \<and> (GetConfig_loop compile parse procnames 0 [] = Inr f
      \<longrightarrow> map (getMatchNamer compile parse) procnames = map Inr f)"
proof (intro conjI impI)
  assume "(\<forall>m\<in>set pre. \<not> fst (matchNamer_MatchAndName m nacl)) \<and>
      matchNamer_MatchAndName A nacl = (True, n)"
  then show "FirstMatcher_MatchAndName (pre @ A # post) nacl = (True, n)"
    by (simp add: FirstMatcher_first)
next
  assume "\<forall>m\<in>set f. \<not> fst (matchNamer_MatchAndName m nacl)"
  then show "FirstMatcher_MatchAndName f nacl = (False, [])"
    by (rule FirstMatcher_none)
next
  assume "matchnamer c = Some f \<and> NewStat p = Inr stat \<and> CmdLine p = Inr cmdline \<and>
        \<not> fst (FirstMatcher_MatchAndName f \<lparr>Name = stat_Comm stat, Cmdline = cmdline\<rparr>)"
  then show "loop_body lookupId bootTime c procGroups p = Continue c procGroups"
    by (simp add: loop_body_unmatched)
next
  assume "GetConfig_loop compile parse procnames 0 [] = Inr f"
  from GetConfig_loop_order[OF this]
  show "map (getMatchNamer compile parse) procnames = map Inr f" by auto
qed

theorem FirstMatcher_first_match_wins_witness:
  "matchNamer_MatchAndName first_rule \<lparr>Name = ''kthreadd'', Cmdline = []\<rparr> = (True, ''first'')
   \<and> matchNamer_MatchAndName second_rule \<lparr>Name = ''kthreadd'', Cmdline = []\<rparr> = (True, ''second'')
   \<and> FirstMatcher_MatchAndName ([] @ first_rule # [second_rule]) \<lparr>Name = ''kthreadd'', Cmdline = []\<rparr>
       = (True, ''first'')
   \<and> FirstMatcher_MatchAndName [first_rule, second_rule] \<lparr>Name = ''sshd'', Cmdline = []\<rparr> = (False, [])
   \<and> loop_body lookup_root 0 (NewProcCollector (Some [first_rule, second_rule])) Map.empty
        \<lparr>PID = 1, NewStat = Inr ((kthread_stat 0)\<lparr>stat_Comm := ''sshd''\<rparr>), CmdLine = Inr [],
         os_Stat = Inr (Some 0)\<rparr>
       = Continue (NewProcCollector (Some [first_rule, second_rule])) Map.empty
   \<and> GetConfig_loop (\<lambda>c. None) parse_plain_or_ExeBase
        [comm_entry ''kthreadd'' ''first'', comm_entry ''kthreadd'' ''second''] 0 []
       = Inr [first_rule, second_rule]
   \<and> map (getMatchNamer (\<lambda>c. None) parse_plain_or_ExeBase)
        [comm_entry ''kthreadd'' ''first'', comm_entry ''kthreadd'' ''second'']
       = map Inr [first_rule, second_rule]"
  using FirstMatcher_first_match_wins
    [where pre = "[]" and A = first_rule and post = "[second_rule]" and n = "''first''"
       and nacl = "\<lparr>Name = ''kthreadd'', Cmdline = []\<rparr>"]
    FirstMatcher_first_match_wins
    [where f = "[first_rule, second_rule]" and nacl = "\<lparr>Name = ''sshd'', Cmdline = []\<rparr>"
       and c = "NewProcCollector (Some [first_rule, second_rule])"
       and p = "\<lparr>PID = 1, NewStat = Inr ((kthread_stat 0)\<lparr>stat_Comm := ''sshd''\<rparr>),
                 CmdLine = Inr [], os_Stat = Inr (Some 0)\<rparr>"
       and stat = "(kthread_stat 0)\<lparr>stat_Comm := ''sshd''\<rparr>" and cmdline = "[]"
       and lookupId = lookup_root and bootTime = 0 and procGroups = Map.empty
       and compile = "\<lambda>c. None" and parse = parse_plain_or_ExeBase
       and procnames = "[comm_entry ''kthreadd'' ''first'', comm_entry ''kthreadd'' ''second'']"]
  by (simp add: classify_eval first_rule_def second_rule_def NewProcCollector_def kthread_stat_def comm_entry_def getMatchNamer_def
      build_matchNamer_def parse_plain_or_ExeBase_def)

section \<open>The command-line matcher\<close>

text \<open>
  Claim C2, as the code has it. When \<open>cmdlineMatcher.Match\<close> succeeds with the captures
  \<open>m\<close>, the keys of \<open>m\<close> are the entries of \<open>SubexpNames()\<close> of all the expressions: the
  names of the named groups and, besides them, only the empty string, which
  \<open>SubexpNames()\<close> gives for the whole match and for every unnamed group. The value under
  a key is the text of the last group of that name: of the last expression of the list
  that has the name, at the last place of the name in it.
\<close>

theorem cmdlineMatcher_captures:
  "cmdlineMatcher_Match regexes nacl = (True, Some m) \<longrightarrow>
     dom m = (\<Union>r\<in>set regexes. set (SubexpNames r))
   \<and> dom m - {[]} = (\<Union>r\<in>set regexes. named_groups r)
   \<and> (\<forall>pre r post ns1 k ns2 caps.
         regexes = pre @ r # post \<and>
         FindStringSubmatch r (strings_Join (Cmdline nacl) '' '') = Some caps \<and>
         SubexpNames r = ns1 @ k # ns2 \<and> k \<notin> set ns2 \<and>
         (\<forall>r'\<in>set post. k \<notin> set (SubexpNames r'))
         \<longrightarrow> m k = Some (caps ! length ns1))"
proof (intro impI conjI allI)
  assume a: "cmdlineMatcher_Match regexes nacl = (True, Some m)"
  then show d: "dom m = (\<Union>r\<in>set regexes. set (SubexpNames r))"
    using cmdline_regex_loop_dom[of regexes _ Map.empty m]
    by (simp add: cmdlineMatcher_Match_def)
  show "dom m - {[]} = (\<Union>r\<in>set regexes. named_groups r)"
    unfolding d by (rule named_groups_Un)
next
  fix pre r post ns1 k ns2 caps
  assume a: "cmdlineMatcher_Match regexes nacl = (True, Some m)"
    and b: "regexes = pre @ r # post \<and>
         FindStringSubmatch r (strings_Join (Cmdline nacl) '' '') = Some caps \<and>
         SubexpNames r = ns1 @ k # ns2 \<and> k \<notin> set ns2 \<and>
         (\<forall>r'\<in>set post. k \<notin> set (SubexpNames r'))"
  from a b have "cmdline_regex_loop (pre @ r # post) (strings_Join (Cmdline nacl) '' '') Map.empty
      = (True, Some m)"
    by (simp add: cmdlineMatcher_Match_def)
  from cmdline_regex_loop_last[OF this] b show "m k = Some (caps ! length ns1)" by blast
qed

text \<open>
  Claim C2 at the rule \<open>cmdline: ["^worker", "--role=(?P<role>\\w+)"]\<close> and the command line
  \<open>worker --role=ingest\<close>: the capture \<open>role\<close> is \<open>ingest\<close>.
\<close>

theorem cmdlineMatcher_captures_witness:
  "cmdlineMatcher_Match [re_worker, re_role] \<lparr>Name = ''worker'', Cmdline = [''worker'', ''--role=ingest'']\<rparr>
     = (True, Some [[] \<mapsto> ''--role=ingest'', ''role'' \<mapsto> ''ingest''])
   \<and> FindStringSubmatch re_role (strings_Join [''worker'', ''--role=ingest''] '' '')
       = Some [''--role=ingest'', ''ingest'']
   \<and> dom [[] \<mapsto> ''--role=ingest'', ''role'' \<mapsto> ''ingest''] - {[]} = named_groups re_worker \<union> named_groups re_role
   \<and> named_groups re_worker \<union> named_groups re_role = {''role''}
   \<and> [[] \<mapsto> ''--role=ingest'', ''role'' \<mapsto> ''ingest''] ''role'' = Some ''ingest''"
proof -
  let ?nacl = "\<lparr>Name = ''worker'', Cmdline = [''worker'', ''--role=ingest'']\<rparr>"
  let ?m = "[[] \<mapsto> ''--role=ingest'', ''role'' \<mapsto> ''ingest'']"
  have m: "cmdlineMatcher_Match [re_worker, re_role] ?nacl = (True, Some ?m)"
    by (simp add: cmdlineMatcher_Match_def re_worker_def re_role_def is_word_char_def Let_def)
  have f: "FindStringSubmatch re_role (strings_Join [''worker'', ''--role=ingest''] '' '')
       = Some [''--role=ingest'', ''ingest'']"
    by (simp add: cmdlineMatcher_Match_def re_worker_def re_role_def is_word_char_def Let_def)
  have n: "named_groups re_worker \<union> named_groups re_role = {''role''}"
    by (simp add: named_groups_def re_worker_def re_role_def)
  note inst = cmdlineMatcher_captures[where regexes = "[re_worker, re_role]" and nacl = ?nacl and m = ?m,
      THEN mp, OF m]
  have d: "dom ?m - {[]} = named_groups re_worker \<union> named_groups re_role"
    using inst[THEN conjunct2, THEN conjunct1] by simp
  have "[re_worker, re_role] = [re_worker] @ re_role # [] \<and>
         FindStringSubmatch re_role (strings_Join (Cmdline ?nacl) '' '') = Some [''--role=ingest'', ''ingest''] \<and>
         SubexpNames re_role = [[]] @ ''role'' # [] \<and> ''role'' \<notin> set [] \<and>
         (\<forall>r'\<in>set []. ''role'' \<notin> set (SubexpNames r'))"
    using f by (simp add: re_role_def)
  from inst[THEN conjunct2, THEN conjunct2, rule_format, OF this]
  have v: "?m ''role'' = Some ''ingest''" by simp
  from m f d n v show ?thesis by blast
qed

text \<open>
  Claim C2 as it was stated fails there: the captures also hold the empty key, which is
  the name of no named group; its value is the whole match of the last expression.
\<close>

theorem cmdlineMatcher_captures_counterexample:
  "cmdlineMatcher_Match [re_worker, re_role] \<lparr>Name = ''worker'', Cmdline = [''worker'', ''--role=ingest'']\<rparr>
     = (True, Some [[] \<mapsto> ''--role=ingest'', ''role'' \<mapsto> ''ingest''])
   \<and> [] \<in> capture_keys (cmdlineMatcher_Match [re_worker, re_role]
                            \<lparr>Name = ''worker'', Cmdline = [''worker'', ''--role=ingest'']\<rparr>)
   \<and> [] \<notin> named_groups re_worker \<union> named_groups re_role"
  by (simp add: cmdlineMatcher_Match_def re_worker_def re_role_def is_word_char_def Let_def named_groups_def capture_keys_def)

text \<open>
  Claim C4. The matcher joins the command line with single spaces and succeeds exactly
  when every expression of the list finds a match in that text, for expressions whose
  matches have one text per entry of \<open>SubexpNames()\<close>, as package \<open>regexp\<close> guarantees.
  When one expression finds none, and whenever the matcher fails, the result is
  \<open>(false, nil)\<close>: no captures are returned.
\<close>

theorem cmdlineMatcher_all_must_match:
  "((\<forall>r\<in>set regexes. regexp_lengths_agree r) \<longrightarrow>
      fst (cmdlineMatcher_Match regexes nacl) =
        (\<forall>r\<in>set regexes. \<exists>caps. FindStringSubmatch r (strings_Join (Cmdline nacl) '' '') = Some caps))
   \<and> ((\<exists>r\<in>set regexes. FindStringSubmatch r (strings_Join (Cmdline nacl) '' '') = None) \<longrightarrow>
        cmdlineMatcher_Match regexes nacl = (False, None))
   \<and> (\<not> fst (cmdlineMatcher_Match regexes nacl) \<longrightarrow>
        cmdlineMatcher_Match regexes nacl = (False, None))"
proof (intro conjI impI)
  assume "\<forall>r\<in>set regexes. regexp_lengths_agree r"
  from cmdline_regex_loop_fst[OF this]
  show "fst (cmdlineMatcher_Match regexes nacl) =
        (\<forall>r\<in>set regexes. \<exists>caps. FindStringSubmatch r (strings_Join (Cmdline nacl) '' '') = Some caps)"
    by (simp add: cmdlineMatcher_Match_def)
next
  assume "\<exists>r\<in>set regexes. FindStringSubmatch r (strings_Join (Cmdline nacl) '' '') = None"
  then show "cmdlineMatcher_Match regexes nacl = (False, None)"
    unfolding cmdlineMatcher_Match_def by (rule cmdline_regex_loop_none)
next
  assume "\<not> fst (cmdlineMatcher_Match regexes nacl)"
  then show "cmdlineMatcher_Match regexes nacl = (False, None)"
    unfolding cmdlineMatcher_Match_def by (rule cmdline_regex_loop_fail)
qed

text \<open>
  Claim C4 at the patterns \<open>^worker\<close> and \<open>--role=(?P<role>\w+)\<close>: the command line
  \<open>worker\<close> fails as a whole, the command line \<open>worker --role=ingest\<close> matches.
\<close>

theorem cmdlineMatcher_all_must_match_witness:
  "regexp_lengths_agree re_worker \<and> regexp_lengths_agree re_role
   \<and> FindStringSubmatch re_worker (strings_Join [''worker''] '' '') = Some [''worker'']
   \<and> FindStringSubmatch re_role (strings_Join [''worker''] '' '') = None
   \<and> cmdlineMatcher_Match [re_worker, re_role] \<lparr>Name = ''worker'', Cmdline = [''worker'']\<rparr>
       = (False, None)
   \<and> fst (cmdlineMatcher_Match [re_worker, re_role]
             \<lparr>Name = ''worker'', Cmdline = [''worker'', ''--role=ingest'']\<rparr>)"
proof -
  let ?bad = "\<lparr>Name = ''worker'', Cmdline = [''worker'']\<rparr>"
  let ?good = "\<lparr>Name = ''worker'', Cmdline = [''worker'', ''--role=ingest'']\<rparr>"
  have agree: "\<forall>r\<in>set [re_worker, re_role]. regexp_lengths_agree r"
    using re_worker_agree re_role_agree by simp
  have w: "FindStringSubmatch re_worker (strings_Join [''worker''] '' '') = Some [''worker'']"
    by (simp add: re_worker_def)
  have r: "FindStringSubmatch re_role (strings_Join [''worker''] '' '') = None"
    by (simp add: re_role_def is_word_char_def Let_def)
  have "\<exists>r\<in>set [re_worker, re_role]. FindStringSubmatch r (strings_Join (Cmdline ?bad) '' '') = None"
    using r by simp
  from cmdlineMatcher_all_must_match[where regexes = "[re_worker, re_role]" and nacl = ?bad,
      THEN conjunct2, THEN conjunct1, THEN mp, OF this]
  have bad: "cmdlineMatcher_Match [re_worker, re_role] ?bad = (False, None)" .
  have "\<forall>r\<in>set [re_worker, re_role]. \<exists>caps.
          FindStringSubmatch r (strings_Join (Cmdline ?good) '' '') = Some caps"
    by (simp add: re_worker_def re_role_def is_word_char_def Let_def)
  with cmdlineMatcher_all_must_match[where regexes = "[re_worker, re_role]" and nacl = ?good,
      THEN conjunct1, THEN mp, OF agree]
  have good: "fst (cmdlineMatcher_Match [re_worker, re_role] ?good)" by blast
  from re_worker_agree re_role_agree w r bad good show ?thesis by blast
qed

section \<open>The executable matcher\<close>

text \<open>
  Claim C3, as the code has it. \<open>exeMatcher.Match\<close> fails on an empty command line, and
  fails when the basename of the first token is the basename of no entry of \<open>exe\<close>. The
  loop of \<open>getMatchNamer\<close> stores the entries under their basenames, a later entry
  replacing an earlier one of the same basename. For an entry \<open>e\<close> that no later entry
  replaces: when \<open>e\<close> is a full path, a process whose first token has the basename of
  \<open>e\<close> matches exactly when the token is \<open>e\<close>; when \<open>e\<close> is a bare name, every process
  whose first token has the basename \<open>e\<close> matches. So a list of the one full path \<open>e\<close>
  matches exactly the processes whose first token is \<open>e\<close>, and a list of the one bare
  name \<open>e\<close> exactly those whose first token has the basename \<open>e\<close>. For every list, the
  result is decided by the last entry stored under the basename of the first token. The
  matcher of the rule is built by this loop.
\<close>

theorem exeMatcher_full_path_or_basename:
  "(Cmdline nacl = [] \<longrightarrow> exeMatcher_Match exes nacl = (False, None))
   \<and> (Cmdline nacl = tok # args \<and> (\<forall>e\<in>set exe. filepath_Base e \<noteq> filepath_Base tok)
        \<longrightarrow> exeMatcher_Match (exes_loop exe Map.empty) nacl = (False, None))
   \<and> (strings_Contains e ''/'' \<and> (\<forall>e'\<in>set post. filepath_Base e' \<noteq> filepath_Base e) \<and>
        Cmdline nacl = tok # args \<and> filepath_Base tok = filepath_Base e
        \<longrightarrow> exeMatcher_Match (exes_loop (pre @ e # post) Map.empty) nacl = (tok = e, None))
   \<and> (\<not> strings_Contains e ''/'' \<and> (\<forall>e'\<in>set post. filepath_Base e' \<noteq> filepath_Base e) \<and>
        Cmdline nacl = tok # args \<and> filepath_Base tok = e
        \<longrightarrow> exeMatcher_Match (exes_loop (pre @ e # post) Map.empty) nacl = (True, None))
   \<and> (strings_Contains e ''/'' \<and> Cmdline nacl = tok # args
        \<longrightarrow> exeMatcher_Match (exes_loop [e] Map.empty) nacl = (tok = e, None))
   \<and> (\<not> strings_Contains e ''/'' \<and> Cmdline nacl = tok # args
        \<longrightarrow> exeMatcher_Match (exes_loop [e] Map.empty) nacl = (filepath_Base tok = e, None))
   \<and> (Cmdline nacl = tok # args
        \<longrightarrow> exeMatcher_Match (exes_loop exe Map.empty) nacl =
            (case find (\<lambda>e. exe_key e = filepath_Base tok) (rev exe) of
               None \<Rightarrow> (False, None)
             | Some e \<Rightarrow> (\<not> strings_Contains e ''/'' \<or> tok = e, None)))
   \<and> (build_matchNamer compile parse smap nametmpl = Inr mn \<and> smap ''exe'' = Some exe
        \<longrightarrow> ExeMatcher (exes_loop exe Map.empty) \<in> set (andMatcher mn))"
proof (intro conjI impI)
  assume "Cmdline nacl = []"
  then show "exeMatcher_Match exes nacl = (False, None)"
    by (simp add: exeMatcher_Match_def)
next
  assume "Cmdline nacl = tok # args \<and> (\<forall>e\<in>set exe. filepath_Base e \<noteq> filepath_Base tok)"
  then show "exeMatcher_Match (exes_loop exe Map.empty) nacl = (False, None)"
    using exe_not_configured[of nacl tok args exe] by blast
next
  assume "strings_Contains e ''/'' \<and> (\<forall>e'\<in>set post. filepath_Base e' \<noteq> filepath_Base e) \<and>
        Cmdline nacl = tok # args \<and> filepath_Base tok = filepath_Base e"
  then show "exeMatcher_Match (exes_loop (pre @ e # post) Map.empty) nacl = (tok = e, None)"
    using exe_fullpath[of e post nacl tok args pre] by blast
next
  assume "\<not> strings_Contains e ''/'' \<and> (\<forall>e'\<in>set post. filepath_Base e' \<noteq> filepath_Base e) \<and>
        Cmdline nacl = tok # args \<and> filepath_Base tok = e"
  then show "exeMatcher_Match (exes_loop (pre @ e # post) Map.empty) nacl = (True, None)"
    using exe_bare[of e post nacl tok args pre] by blast
next
  assume "strings_Contains e ''/'' \<and> Cmdline nacl = tok # args"
  then show "exeMatcher_Match (exes_loop [e] Map.empty) nacl = (tok = e, None)"
    using exe_single_fullpath[of e nacl tok args] by blast
next
  assume "\<not> strings_Contains e ''/'' \<and> Cmdline nacl = tok # args"
  then show "exeMatcher_Match (exes_loop [e] Map.empty) nacl = (filepath_Base tok = e, None)"
    using exe_single_bare[of e nacl tok args] by blast
next
  assume "Cmdline nacl = tok # args"
  then show "exeMatcher_Match (exes_loop exe Map.empty) nacl =
            (case find (\<lambda>e. exe_key e = filepath_Base tok) (rev exe) of
               None \<Rightarrow> (False, None)
             | Some e \<Rightarrow> (\<not> strings_Contains e ''/'' \<or> tok = e, None))"
    by (rule exeMatcher_characterised)
next
  assume "build_matchNamer compile parse smap nametmpl = Inr mn \<and> smap ''exe'' = Some exe"
  then show "ExeMatcher (exes_loop exe Map.empty) \<in> set (andMatcher mn)"
    using build_matchNamer_exe by blast
qed

text \<open>
  Claim C3 at \<open>exe: ["/usr/bin/foo"]\<close>, which matches \<open>/usr/bin/foo\<close> and neither
  \<open>/opt/foo\<close> nor \<open>/bin/bar\<close>, at \<open>exe: ["foo"]\<close>, which matches \<open>/opt/foo\<close> and not
  \<open>/bin/bar\<close>, and at lists of several entries.
\<close>

theorem exeMatcher_full_path_or_basename_witness:
  "exeMatcher_Match (exes_loop [''/usr/bin/foo''] Map.empty) \<lparr>Name = ''foo'', Cmdline = []\<rparr> = (False, None)
   \<and> exeMatcher_Match (exes_loop [''/usr/bin/foo''] Map.empty)
        \<lparr>Name = ''foo'', Cmdline = [''/usr/bin/foo'']\<rparr> = (True, None)
   \<and> exeMatcher_Match (exes_loop [''/usr/bin/foo''] Map.empty)
        \<lparr>Name = ''foo'', Cmdline = [''/opt/foo'']\<rparr> = (False, None)
   \<and> exeMatcher_Match (exes_loop [''/usr/bin/foo''] Map.empty)
        \<lparr>Name = ''bar'', Cmdline = [''/bin/bar'']\<rparr> = (False, None)
   \<and> exeMatcher_Match (exes_loop [''foo''] Map.empty)
        \<lparr>Name = ''foo'', Cmdline = [''/opt/foo'', ''-x'']\<rparr> = (True, None)
   \<and> exeMatcher_Match (exes_loop [''foo''] Map.empty)
        \<lparr>Name = ''bar'', Cmdline = [''/bin/bar'']\<rparr> = (False, None)
   \<and> exeMatcher_Match (exes_loop ([''/usr/bin/foo''] @ ''foo'' # [''bar'']) Map.empty)
        \<lparr>Name = ''foo'', Cmdline = [''/opt/foo'', ''-x'']\<rparr> = (True, None)
   \<and> exeMatcher_Match (exes_loop ([''foo''] @ ''/usr/bin/foo'' # [''bar'']) Map.empty)
        \<lparr>Name = ''foo'', Cmdline = [''/opt/foo'']\<rparr> = (False, None)
   \<and> exeMatcher_Match (exes_loop [''foo'', ''/usr/bin/foo''] Map.empty)
        \<lparr>Name = ''sh'', Cmdline = [''/bin/sh'']\<rparr> = (False, None)
   \<and> find (\<lambda>e. exe_key e = filepath_Base ''/usr/bin/foo'') (rev [''foo'', ''/usr/bin/foo''])
        = Some ''/usr/bin/foo''
   \<and> exeMatcher_Match (exes_loop [''foo'', ''/usr/bin/foo''] Map.empty)
        \<lparr>Name = ''foo'', Cmdline = [''/usr/bin/foo'']\<rparr> = (True, None)
   \<and> ExeMatcher (exes_loop [''foo''] Map.empty) \<in>
        set (andMatcher \<lparr>andMatcher = [ExeMatcher (exes_loop [''foo''] Map.empty)], templateNamer = ExeBase\<rparr>)"
proof -
  have slash: "strings_Contains ''/usr/bin/foo'' ''/''" "\<not> strings_Contains ''foo'' ''/''"
    by simp_all
  have b: "filepath_Base ''/usr/bin/foo'' = ''foo''" "filepath_Base ''/opt/foo'' = ''foo''"
    "filepath_Base ''foo'' = ''foo''" "filepath_Base ''bar'' = ''bar''"
    "filepath_Base ''/bin/bar'' = ''bar''" "filepath_Base ''/bin/sh'' = ''sh''"
    by (simp_all add: base_eval)
  note T = exeMatcher_full_path_or_basename
  have 1: "exeMatcher_Match (exes_loop [''/usr/bin/foo''] Map.empty) \<lparr>Name = ''foo'', Cmdline = []\<rparr> = (False, None)"
    using T[where nacl = "\<lparr>Name = ''foo'', Cmdline = []\<rparr>"
        and exes = "exes_loop [''/usr/bin/foo''] Map.empty", THEN conjunct1]
    by simp
  have 2: "exeMatcher_Match (exes_loop [''/usr/bin/foo''] Map.empty)
        \<lparr>Name = ''foo'', Cmdline = [''/usr/bin/foo'']\<rparr> = (True, None)"
    using T[where e = "''/usr/bin/foo''"
        and nacl = "\<lparr>Name = ''foo'', Cmdline = [''/usr/bin/foo'']\<rparr>"
        and tok = "''/usr/bin/foo''" and args = "[]",
        THEN conjunct2, THEN conjunct2, THEN conjunct2, THEN conjunct2, THEN conjunct1] slash
    by simp
  have 3: "exeMatcher_Match (exes_loop [''/usr/bin/foo''] Map.empty)
        \<lparr>Name = ''foo'', Cmdline = [''/opt/foo'']\<rparr> = (False, None)"
    using T[where e = "''/usr/bin/foo''"
        and nacl = "\<lparr>Name = ''foo'', Cmdline = [''/opt/foo'']\<rparr>"
        and tok = "''/opt/foo''" and args = "[]",
        THEN conjunct2, THEN conjunct2, THEN conjunct2, THEN conjunct2, THEN conjunct1] slash
    by simp
  have 4: "exeMatcher_Match (exes_loop [''/usr/bin/foo''] Map.empty)
        \<lparr>Name = ''bar'', Cmdline = [''/bin/bar'']\<rparr> = (False, None)"
    using T[where exe = "[''/usr/bin/foo'']"
        and nacl = "\<lparr>Name = ''bar'', Cmdline = [''/bin/bar'']\<rparr>"
        and tok = "''/bin/bar''" and args = "[]", THEN conjunct2, THEN conjunct1] b
    by simp
  have 5: "exeMatcher_Match (exes_loop [''foo''] Map.empty)
        \<lparr>Name = ''foo'', Cmdline = [''/opt/foo'', ''-x'']\<rparr> = (True, None)"
    using T[where e = "''foo''"
        and nacl = "\<lparr>Name = ''foo'', Cmdline = [''/opt/foo'', ''-x'']\<rparr>"
        and tok = "''/opt/foo''" and args = "[''-x'']",
        THEN conjunct2, THEN conjunct2, THEN conjunct2, THEN conjunct2, THEN conjunct2, THEN conjunct1]
      slash b
    by simp
  have 6: "exeMatcher_Match (exes_loop [''foo''] Map.empty)
        \<lparr>Name = ''bar'', Cmdline = [''/bin/bar'']\<rparr> = (False, None)"
    using T[where e = "''foo''"
        and nacl = "\<lparr>Name = ''bar'', Cmdline = [''/bin/bar'']\<rparr>"
        and tok = "''/bin/bar''" and args = "[]",
        THEN conjunct2, THEN conjunct2, THEN conjunct2, THEN conjunct2, THEN conjunct2, THEN conjunct1]
      slash b
    by simp
  have 7: "exeMatcher_Match (exes_loop ([''/usr/bin/foo''] @ ''foo'' # [''bar'']) Map.empty)
        \<lparr>Name = ''foo'', Cmdline = [''/opt/foo'', ''-x'']\<rparr> = (True, None)"
    using T[where e = "''foo''" and post = "[''bar'']" and pre = "[''/usr/bin/foo'']"
        and nacl = "\<lparr>Name = ''foo'', Cmdline = [''/opt/foo'', ''-x'']\<rparr>"
        and tok = "''/opt/foo''" and args = "[''-x'']",
        THEN conjunct2, THEN conjunct2, THEN conjunct2, THEN conjunct1] slash b
    by simp
  have 8: "exeMatcher_Match (exes_loop ([''foo''] @ ''/usr/bin/foo'' # [''bar'']) Map.empty)
        \<lparr>Name = ''foo'', Cmdline = [''/opt/foo'']\<rparr> = (False, None)"
    using T[where e = "''/usr/bin/foo''" and post = "[''bar'']" and pre = "[''foo'']"
        and nacl = "\<lparr>Name = ''foo'', Cmdline = [''/opt/foo'']\<rparr>"
        and tok = "''/opt/foo''" and args = "[]",
        THEN conjunct2, THEN conjunct2, THEN conjunct1] slash b
    by simp
  have 9: "exeMatcher_Match (exes_loop [''foo'', ''/usr/bin/foo''] Map.empty)
        \<lparr>Name = ''sh'', Cmdline = [''/bin/sh'']\<rparr> = (False, None)"
    using T[where exe = "[''foo'', ''/usr/bin/foo'']"
        and nacl = "\<lparr>Name = ''sh'', Cmdline = [''/bin/sh'']\<rparr>"
        and tok = "''/bin/sh''" and args = "[]", THEN conjunct2, THEN conjunct1] b
    by simp
  have f: "find (\<lambda>e. exe_key e = filepath_Base ''/usr/bin/foo'') (rev [''foo'', ''/usr/bin/foo''])
        = Some ''/usr/bin/foo''"
    by (simp add: exe_key_def b)
  have 10: "exeMatcher_Match (exes_loop [''foo'', ''/usr/bin/foo''] Map.empty)
        \<lparr>Name = ''foo'', Cmdline = [''/usr/bin/foo'']\<rparr> = (True, None)"
    using T[where exe = "[''foo'', ''/usr/bin/foo'']"
        and nacl = "\<lparr>Name = ''foo'', Cmdline = [''/usr/bin/foo'']\<rparr>"
        and tok = "''/usr/bin/foo''" and args = "[]",
        THEN conjunct2, THEN conjunct2, THEN conjunct2, THEN conjunct2, THEN conjunct2,
        THEN conjunct2, THEN conjunct1]
    unfolding f by simp
  have 11: "ExeMatcher (exes_loop [''foo''] Map.empty) \<in>
        set (andMatcher \<lparr>andMatcher = [ExeMatcher (exes_loop [''foo''] Map.empty)], templateNamer = ExeBase\<rparr>)"
    using T[where compile = "\<lambda>c. None" and parse = parse_plain_or_ExeBase
        and smap = "[''exe'' \<mapsto> [''foo'']]" and nametmpl = "[]" and exe = "[''foo'']"
        and mn = "\<lparr>andMatcher = [ExeMatcher (exes_loop [''foo''] Map.empty)], templateNamer = ExeBase\<rparr>",
        THEN conjunct2, THEN conjunct2, THEN conjunct2, THEN conjunct2, THEN conjunct2,
        THEN conjunct2, THEN conjunct2]
    by (simp add: build_matchNamer_def parse_plain_or_ExeBase_def)
  from 1 2 3 4 5 6 7 8 9 f 10 11 show ?thesis by simp
qed

text \<open>
  Claim C3 as it was stated fails at \<open>exe: ["foo", "/usr/bin/foo"]\<close>: the bare name
  \<open>foo\<close> is a configured entry and \<open>/opt/foo\<close> has that basename, but the later entry
  has replaced it and the process does not match.
\<close>

theorem exeMatcher_full_path_or_basename_counterexample:
  "\<not> strings_Contains ''foo'' ''/'' \<and> filepath_Base ''/opt/foo'' = ''foo''
   \<and> exeMatcher_Match (exes_loop [''foo'', ''/usr/bin/foo''] Map.empty)
        \<lparr>Name = ''foo'', Cmdline = [''/opt/foo'']\<rparr> = (False, None)"
  by (simp add: exeMatcher_Match_def base_eval)

section \<open>The conjunction of matchers\<close>

text \<open>
  Claim C5. \<open>andMatcher.Match\<close> succeeds exactly when every matcher of the list matches,
  so a rule with a \<open>comm\<close> and a \<open>cmdline\<close> matcher needs both; a failure returns
  \<open>(false, nil)\<close>. On success it returns a map whose keys are the keys of all the
  captures, and the value under a key is the one of the last matcher that has the key.
\<close>

theorem andMatcher_conjunction_and_merge:
  "fst (andMatcher_Match ms nacl) = (\<forall>m\<in>set ms. fst (Matcher_Match m nacl))
   \<and> (\<not> fst (andMatcher_Match ms nacl) \<longrightarrow> andMatcher_Match ms nacl = (False, None))
   \<and> fst (andMatcher_Match [CommMatcher comms, CmdlineMatcher regexes] nacl) =
        (fst (commMatcher_Match comms nacl) \<and> fst (cmdlineMatcher_Match regexes nacl))
   \<and> (fst (andMatcher_Match ms nacl) \<longrightarrow> (\<exists>merged. andMatcher_Match ms nacl = (True, Some merged)))
   \<and> (andMatcher_Match ms nacl = (True, Some merged) \<longrightarrow>
        dom merged = (\<Union>m\<in>set ms. capture_keys (Matcher_Match m nacl)) \<and>
        (\<forall>pre m post c k v.
           ms = pre @ m # post \<and> snd (Matcher_Match m nacl) = Some c \<and> c k = Some v \<and>
           (\<forall>m'\<in>set post. k \<notin> capture_keys (Matcher_Match m' nacl))
           \<longrightarrow> merged k = Some v))"
proof (intro conjI impI allI)
  show "fst (andMatcher_Match ms nacl) = (\<forall>m\<in>set ms. fst (Matcher_Match m nacl))"
    by (simp add: andMatcher_Match_def andMatcher_loop_fst)
  show "fst (andMatcher_Match [CommMatcher comms, CmdlineMatcher regexes] nacl) =
        (fst (commMatcher_Match comms nacl) \<and> fst (cmdlineMatcher_Match regexes nacl))"
    unfolding andMatcher_Match_def andMatcher_loop_fst by simp
next
  assume "\<not> fst (andMatcher_Match ms nacl)"
  then show "andMatcher_Match ms nacl = (False, None)"
    unfolding andMatcher_Match_def by (rule andMatcher_loop_fail)
next
  assume "fst (andMatcher_Match ms nacl)"
  then show "\<exists>merged. andMatcher_Match ms nacl = (True, Some merged)"
    unfolding andMatcher_Match_def by (rule andMatcher_loop_some)
next
  assume "andMatcher_Match ms nacl = (True, Some merged)"
  then show "dom merged = (\<Union>m\<in>set ms. capture_keys (Matcher_Match m nacl))"
    using andMatcher_loop_dom[of ms nacl Map.empty merged]
    by (simp add: andMatcher_Match_def capture_keys_def)
next
  fix pre m post c k v
  assume a: "andMatcher_Match ms nacl = (True, Some merged)"
    and b: "ms = pre @ m # post \<and> snd (Matcher_Match m nacl) = Some c \<and> c k = Some v \<and>
           (\<forall>m'\<in>set post. k \<notin> capture_keys (Matcher_Match m' nacl))"
  from a b have l: "andMatcher_loop (pre @ m # post) nacl Map.empty = (True, Some merged)"
    by (simp add: andMatcher_Match_def)
  from b have "\<forall>m'\<in>set post. \<forall>c'. snd (Matcher_Match m' nacl) = Some c' \<longrightarrow> c' k = None"
    by (auto simp: capture_keys_def)
  from andMatcher_loop_last[OF l _ _ this] b show "merged k = Some v" by blast
qed

text \<open>
  Claim C5 at a rule with \<open>comm: [worker]\<close> and a \<open>cmdline\<close> matcher, for a process that
  satisfies only the first, one that satisfies only the second, and one that matches a
  list of three matchers, where the last matcher overwrites the empty key.
\<close>

theorem andMatcher_conjunction_and_merge_witness:
  "andMatcher_Match [CommMatcher {''worker''}, CmdlineMatcher [re_role]]
       \<lparr>Name = ''worker'', Cmdline = [''worker'']\<rparr> = (False, None)
   \<and> andMatcher_Match [CommMatcher {''worker''}, CmdlineMatcher [re_role]]
       \<lparr>Name = ''bash'', Cmdline = [''worker'', ''--role=ingest'']\<rparr> = (False, None)
   \<and> andMatcher_Match [CommMatcher {''worker''}, CmdlineMatcher [re_role], CmdlineMatcher [re_worker]]
       \<lparr>Name = ''worker'', Cmdline = [''worker'', ''--role=ingest'']\<rparr>
       = (True, Some [[] \<mapsto> ''worker'', ''role'' \<mapsto> ''ingest''])
   \<and> capture_keys (cmdlineMatcher_Match [re_role]
         \<lparr>Name = ''worker'', Cmdline = [''worker'', ''--role=ingest'']\<rparr>) = {[], ''role''}
   \<and> capture_keys (cmdlineMatcher_Match [re_worker]
         \<lparr>Name = ''worker'', Cmdline = [''worker'', ''--role=ingest'']\<rparr>) = {[]}
   \<and> [[] \<mapsto> ''worker'', ''role'' \<mapsto> ''ingest''] [] = Some ''worker''
   \<and> [[] \<mapsto> ''worker'', ''role'' \<mapsto> ''ingest''] ''role'' = Some ''ingest''"
proof -
  let ?rule = "[CommMatcher {''worker''}, CmdlineMatcher [re_role]]"
  let ?rule3 = "[CommMatcher {''worker''}, CmdlineMatcher [re_role], CmdlineMatcher [re_worker]]"
  let ?comm_only = "\<lparr>Name = ''worker'', Cmdline = [''worker'']\<rparr>"
  let ?cmdline_only = "\<lparr>Name = ''bash'', Cmdline = [''worker'', ''--role=ingest'']\<rparr>"
  let ?both = "\<lparr>Name = ''worker'', Cmdline = [''worker'', ''--role=ingest'']\<rparr>"
  let ?merged = "[[] \<mapsto> ''worker'', ''role'' \<mapsto> ''ingest'']"
  have c1: "fst (commMatcher_Match {''worker''} ?comm_only)"
    "\<not> fst (cmdlineMatcher_Match [re_role] ?comm_only)"
    by (simp_all add: commMatcher_Match_def cmdlineMatcher_Match_def re_worker_def re_role_def is_word_char_def Let_def)
  have c2: "\<not> fst (commMatcher_Match {''worker''} ?cmdline_only)"
    "fst (cmdlineMatcher_Match [re_role] ?cmdline_only)"
    by (simp_all add: commMatcher_Match_def cmdlineMatcher_Match_def re_worker_def re_role_def is_word_char_def Let_def)
  have 1: "andMatcher_Match ?rule ?comm_only = (False, None)"
    using andMatcher_conjunction_and_merge[where ms = ?rule and nacl = ?comm_only
        and comms = "{''worker''}" and regexes = "[re_role]"] c1
    by blast
  have 2: "andMatcher_Match ?rule ?cmdline_only = (False, None)"
    using andMatcher_conjunction_and_merge[where ms = ?rule and nacl = ?cmdline_only
        and comms = "{''worker''}" and regexes = "[re_role]"] c2
    by blast
  have role: "cmdlineMatcher_Match [re_role] ?both = (True, Some [[] \<mapsto> ''--role=ingest'', ''role'' \<mapsto> ''ingest''])"
    by (simp add: cmdlineMatcher_Match_def re_worker_def re_role_def is_word_char_def Let_def)
  have worker: "cmdlineMatcher_Match [re_worker] ?both = (True, Some [[] \<mapsto> ''worker''])"
    by (simp add: cmdlineMatcher_Match_def re_worker_def re_role_def is_word_char_def Let_def)
  have 3: "andMatcher_Match ?rule3 ?both = (True, Some ?merged)"
    by (auto simp: andMatcher_Match_def commMatcher_Match_def role worker map_add_def fun_upd_def)
  have k1: "capture_keys (cmdlineMatcher_Match [re_role] ?both) = {[], ''role''}"
    by (auto simp: role capture_keys_def)
  have k2: "capture_keys (cmdlineMatcher_Match [re_worker] ?both) = {[]}"
    by (simp add: worker capture_keys_def)
  note inst = andMatcher_conjunction_and_merge[where ms = ?rule3 and nacl = ?both and merged = ?merged,
      THEN conjunct2, THEN conjunct2, THEN conjunct2, THEN conjunct2, THEN mp, OF 3,
      THEN conjunct2, rule_format]
  have "?rule3 = [CommMatcher {''worker''}, CmdlineMatcher [re_role]] @ CmdlineMatcher [re_worker] # [] \<and>
        snd (Matcher_Match (CmdlineMatcher [re_worker]) ?both) = Some [[] \<mapsto> ''worker''] \<and>
        [[] \<mapsto> ''worker''] [] = Some ''worker'' \<and>
        (\<forall>m'\<in>set []. [] \<notin> capture_keys (Matcher_Match m' ?both))"
    by (simp add: worker)
  from inst[OF this] have v1: "?merged [] = Some ''worker''" .
  have "?rule3 = [CommMatcher {''worker''}] @ CmdlineMatcher [re_role] # [CmdlineMatcher [re_worker]] \<and>
        snd (Matcher_Match (CmdlineMatcher [re_role]) ?both) = Some [[] \<mapsto> ''--role=ingest'', ''role'' \<mapsto> ''ingest''] \<and>
        [[] \<mapsto> ''--role=ingest'', ''role'' \<mapsto> ''ingest''] ''role'' = Some ''ingest'' \<and>
        (\<forall>m'\<in>set [CmdlineMatcher [re_worker]]. ''role'' \<notin> capture_keys (Matcher_Match m' ?both))"
    by (simp add: role k2)
  from inst[OF this] have v2: "?merged ''role'' = Some ''ingest''" .
  from 1 2 3 k1 k2 v1 v2 show ?thesis by blast
qed

section \<open>The default name\<close>

text \<open>
  Claim C6. For a rule read from an entry without the key \<open>name\<close>, \<open>getMatchNamer\<close>
  parses the template \<open>{{.ExeBase}}\<close>; given that the template package renders it as the
  field \<open>ExeBase\<close>, the name of a match is the basename of the first token of the command
  line, and the command name when the command line is empty.
\<close>

theorem default_name_is_ExeBase:
  "getMatchNamer compile parse (YMap nm) = Inr mn \<and> (\<forall>v. (YString ''name'', v) \<notin> set nm) \<and>
   parse ''{{.ExeBase}}'' = Some ExeBase \<and> matchNamer_MatchAndName mn nacl = (True, n)
   \<longrightarrow> n = (case Cmdline nacl of [] \<Rightarrow> Name nacl | tok # args \<Rightarrow> filepath_Base tok)"
proof
  assume a: "getMatchNamer compile parse (YMap nm) = Inr mn \<and> (\<forall>v. (YString ''name'', v) \<notin> set nm) \<and>
   parse ''{{.ExeBase}}'' = Some ExeBase \<and> matchNamer_MatchAndName mn nacl = (True, n)"
  then obtain smap t where r: "read_entries nm Map.empty [] = Inr (smap, t)"
    and b: "build_matchNamer compile parse smap t = Inr mn"
    by (auto simp: getMatchNamer_def split: sum.splits)
  from read_entries_noname[OF r] a have "t = []" by blast
  with b a have "templateNamer mn = ExeBase" using build_default by blast
  from matchNamer_default[OF this] a
  show "n = (case Cmdline nacl of [] \<Rightarrow> Name nacl | tok # args \<Rightarrow> filepath_Base tok)" by blast
qed

text \<open>
  Claim C6 at \<open>exe: [server]\<close> with the command line \<open>/opt/app/bin/server -x\<close>, named
  \<open>server\<close>, and at \<open>comm: [kthreadd]\<close> with an empty command line, named \<open>kthreadd\<close>.
\<close>

theorem default_name_is_ExeBase_witness:
  "getMatchNamer (\<lambda>c. None) parse_plain_or_ExeBase (YMap [(YString ''exe'', YList [YString ''server''])])
     = Inr \<lparr>andMatcher = [ExeMatcher [''server'' \<mapsto> []]], templateNamer = ExeBase\<rparr>
   \<and> parse_plain_or_ExeBase ''{{.ExeBase}}'' = Some ExeBase
   \<and> matchNamer_MatchAndName \<lparr>andMatcher = [ExeMatcher [''server'' \<mapsto> []]], templateNamer = ExeBase\<rparr>
        \<lparr>Name = ''srv'', Cmdline = [''/opt/app/bin/server'', ''-x'']\<rparr> = (True, ''server'')
   \<and> getMatchNamer (\<lambda>c. None) parse_plain_or_ExeBase (YMap [(YString ''comm'', YList [YString ''kthreadd''])])
     = Inr kthread_rule
   \<and> matchNamer_MatchAndName kthread_rule \<lparr>Name = ''kthreadd'', Cmdline = []\<rparr> = (True, ''kthreadd'')"
proof -
  let ?exe = "YMap [(YString ''exe'', YList [YString ''server''])]"
  let ?comm = "YMap [(YString ''comm'', YList [YString ''kthreadd''])]"
  let ?mn = "\<lparr>andMatcher = [ExeMatcher [''server'' \<mapsto> []]], templateNamer = ExeBase\<rparr>"
  have p: "parse_plain_or_ExeBase ''{{.ExeBase}}'' = Some ExeBase"
    by (simp add: parse_plain_or_ExeBase_def)
  have g1: "getMatchNamer (\<lambda>c. None) parse_plain_or_ExeBase ?exe = Inr ?mn"
    by (simp add: getMatchNamer_def build_matchNamer_def p)
  have g2: "getMatchNamer (\<lambda>c. None) parse_plain_or_ExeBase ?comm = Inr kthread_rule"
    by (simp add: getMatchNamer_def build_matchNamer_def p kthread_rule_def)
  have m1: "fst (matchNamer_MatchAndName ?mn \<lparr>Name = ''srv'', Cmdline = [''/opt/app/bin/server'', ''-x'']\<rparr>)"
    by (simp add: matchNamer_MatchAndName_def andMatcher_Match_def exeMatcher_Match_def base_eval)
  have m2: "fst (matchNamer_MatchAndName kthread_rule \<lparr>Name = ''kthreadd'', Cmdline = []\<rparr>)"
    by (simp add: matchNamer_MatchAndName_def andMatcher_Match_def commMatcher_Match_def kthread_rule_def)
  have n1: "matchNamer_MatchAndName ?mn \<lparr>Name = ''srv'', Cmdline = [''/opt/app/bin/server'', ''-x'']\<rparr>
      = (True, ''server'')"
    using default_name_is_ExeBase[where compile = "\<lambda>c. None" and parse = parse_plain_or_ExeBase
        and nm = "[(YString ''exe'', YList [YString ''server''])]" and mn = ?mn
        and nacl = "\<lparr>Name = ''srv'', Cmdline = [''/opt/app/bin/server'', ''-x'']\<rparr>"
        and n = "snd (matchNamer_MatchAndName ?mn \<lparr>Name = ''srv'', Cmdline = [''/opt/app/bin/server'', ''-x'']\<rparr>)"]
      g1 p m1
    by (simp add: prod_eq_iff base_eval)
  have n2: "matchNamer_MatchAndName kthread_rule \<lparr>Name = ''kthreadd'', Cmdline = []\<rparr> = (True, ''kthreadd'')"
    using default_name_is_ExeBase[where compile = "\<lambda>c. None" and parse = parse_plain_or_ExeBase
        and nm = "[(YString ''comm'', YList [YString ''kthreadd''])]" and mn = kthread_rule
        and nacl = "\<lparr>Name = ''kthreadd'', Cmdline = []\<rparr>"
        and n = "snd (matchNamer_MatchAndName kthread_rule \<lparr>Name = ''kthreadd'', Cmdline = []\<rparr>)"]
      g2 p m2
    by (simp add: prod_eq_iff)
  from g1 p n1 g2 n2 show ?thesis by blast
qed

section \<open>Properties of the aggregation pass\<close>

text \<open>
  Claim C7. A round of the loop for a process whose statistics or command line cannot be
  read adds one to the error counter and leaves the groups as they were. With a
  classifier, the whole pass returns the groups of the pass over the readable processes
  alone, and its counter is that pass's counter plus the number of unreadable processes.
  The pass returns, for every bucket, the accumulation of the statistics of the readable
  processes classified into it, and no bucket else; its counter has grown by one for the
  boot time if that could not be read, by one for every unreadable process and by one
  for every classified process whose account could not be resolved. An unreadable
  process is a member of no bucket.
\<close>

theorem unreadable_process_counted_and_skipped:
  "(unreadable p \<longrightarrow>
      loop_body lookupId bootTime c procGroups p = Continue (count_scrape_error c) procGroups \<and>
      errors_scrape (count_scrape_error c) = errors_scrape c + 1)
   \<and> (matchnamer c = Some f \<and> AllProcs sys = Inr procs \<longrightarrow>
        (\<exists>c' G. readProcGroups (sys\<lparr>AllProcs := Inr (filter (\<lambda>p. \<not> unreadable p) procs)\<rparr>) c
                  = (c', Groups G)
              \<and> readProcGroups sys c
                  = (add_scrape_errors (of_nat (length (filter unreadable procs))) c', Groups G)))
   \<and> (matchnamer c = Some f \<and> AllProcs sys = Inr procs \<and> procfs_NewStat sys = (bootTime, err) \<longrightarrow>
        (\<exists>c' G. readProcGroups sys c = (c', Groups G) \<and>
           errors_scrape c' =
             errors_scrape c + (if err \<noteq> None then 1 else 0)
             + of_nat (length (filter unreadable procs))
             + of_nat (length (filter (account_failed f (user_LookupId sys)) procs)) \<and>
           (\<forall>k. G k = (if members f (user_LookupId sys) k procs = [] then None
                       else Some (accumulated bootTime k (members f (user_LookupId sys) k procs))))))
   \<and> (unreadable p \<longrightarrow> members f lookupId k (pre @ p # post) = members f lookupId k (pre @ post))"
proof (intro conjI impI)
  assume u: "unreadable p"
  then show "loop_body lookupId bootTime c procGroups p = Continue (count_scrape_error c) procGroups"
    by (rule loop_body_unreadable)
  show "errors_scrape (count_scrape_error c) = errors_scrape c + 1"
    by (simp add: count_scrape_error_def)
next
  assume "matchnamer c = Some f \<and> AllProcs sys = Inr procs"
  then show "\<exists>c' G. readProcGroups (sys\<lparr>AllProcs := Inr (filter (\<lambda>p. \<not> unreadable p) procs)\<rparr>) c
                  = (c', Groups G)
              \<and> readProcGroups sys c
                  = (add_scrape_errors (of_nat (length (filter unreadable procs))) c', Groups G)"
    using readProcGroups_skip[of c f sys procs] by blast
next
  assume "matchnamer c = Some f \<and> AllProcs sys = Inr procs \<and> procfs_NewStat sys = (bootTime, err)"
  then show "\<exists>c' G. readProcGroups sys c = (c', Groups G) \<and>
           errors_scrape c' =
             errors_scrape c + (if err \<noteq> None then 1 else 0)
             + of_nat (length (filter unreadable procs))
             + of_nat (length (filter (account_failed f (user_LookupId sys)) procs)) \<and>
           (\<forall>k. G k = (if members f (user_LookupId sys) k procs = [] then None
                       else Some (accumulated bootTime k (members f (user_LookupId sys) k procs))))"
    using readProcGroups_exact[of c f sys procs bootTime err] by blast
next
  assume "unreadable p"
  then have "folded f lookupId p = None" by (rule unreadable_not_folded)
  then show "members f lookupId k (pre @ p # post) = members f lookupId k (pre @ post)"
    by (induction pre) (auto split: option.splits)
qed

text \<open>
  Claim C7 at a table of two processes that are gone, two readable processes of one
  bucket and one unclassified process: two errors are counted, the bucket holds the sums
  of the two readable processes, and there is no bucket of the unclassified one.
\<close>

theorem unreadable_process_counted_and_skipped_witness:
  "unreadable (vanished_proc 99) \<and> \<not> unreadable (loaded_proc ''kthreadd'' 300 0)
   \<and> loop_body lookup_root 1000 (NewProcCollector (Some [kthread_rule])) Map.empty (vanished_proc 99)
       = Continue (count_scrape_error (NewProcCollector (Some [kthread_rule]))) Map.empty
   \<and> errors_scrape (fst (readProcGroups
         (booted [vanished_proc 99, loaded_proc ''kthreadd'' 300 0, vanished_proc 100,
                  loaded_proc ''sshd'' 50 0, loaded_proc ''kthreadd'' 100 0])
         (NewProcCollector (Some [kthread_rule])))) = 2
   \<and> group_at (readProcGroups
         (booted [vanished_proc 99, loaded_proc ''kthreadd'' 300 0, vanished_proc 100,
                  loaded_proc ''sshd'' 50 0, loaded_proc ''kthreadd'' 100 0])
         (NewProcCollector (Some [kthread_rule]))) (''root'', ''kthreadd'')
       = Some \<lparr>name = ''kthreadd'', account = ''root'', cpuSystem = 5, cpuUser = 3,
               memVirt = 8192, memRss = 2048, numProcs = 2, numThreads = 6,
               oldestStartTime = 1001\<rparr>
   \<and> group_at (readProcGroups
         (booted [vanished_proc 99, loaded_proc ''kthreadd'' 300 0, vanished_proc 100,
                  loaded_proc ''sshd'' 50 0, loaded_proc ''kthreadd'' 100 0])
         (NewProcCollector (Some [kthread_rule]))) (''root'', ''sshd'') = None
   \<and> snd (readProcGroups
         (booted [vanished_proc 99, loaded_proc ''kthreadd'' 300 0, vanished_proc 100,
                  loaded_proc ''sshd'' 50 0, loaded_proc ''kthreadd'' 100 0])
         (NewProcCollector (Some [kthread_rule])))
       = snd (readProcGroups
         (booted [loaded_proc ''kthreadd'' 300 0, loaded_proc ''sshd'' 50 0,
                  loaded_proc ''kthreadd'' 100 0])
         (NewProcCollector (Some [kthread_rule])))"
proof -
  let ?c = "NewProcCollector (Some [kthread_rule])"
  let ?procs = "[vanished_proc 99, loaded_proc ''kthreadd'' 300 0, vanished_proc 100,
                 loaded_proc ''sshd'' 50 0, loaded_proc ''kthreadd'' 100 0]"
  let ?readable = "[loaded_proc ''kthreadd'' 300 0, loaded_proc ''sshd'' 50 0,
                    loaded_proc ''kthreadd'' 100 0]"
  note T = unreadable_process_counted_and_skipped
  have u: "\<And>pid. unreadable (vanished_proc pid)" "\<And>comm start uid. \<not> unreadable (loaded_proc comm start uid)"
    by (simp_all add: unreadable_def vanished_proc_def loaded_proc_def)
  have 1: "loop_body lookup_root 1000 ?c Map.empty (vanished_proc 99)
       = Continue (count_scrape_error ?c) Map.empty"
    using T[where p = "vanished_proc 99", THEN conjunct1] u by simp
  have s: "(booted ?procs)\<lparr>AllProcs := Inr (filter (\<lambda>p. \<not> unreadable p) ?procs)\<rparr> = booted ?readable"
    using u by (simp add: booted_def)
  have h: "matchnamer ?c = Some [kthread_rule] \<and> AllProcs (booted ?procs) = Inr ?procs"
    by (simp add: NewProcCollector_def booted_def)
  from T[where c = ?c and sys = "booted ?procs" and procs = ?procs,
      THEN conjunct2, THEN conjunct1, THEN mp, OF h]
  obtain c0 G0 where "readProcGroups (booted ?readable) ?c = (c0, Groups G0)"
    "readProcGroups (booted ?procs) ?c = (add_scrape_errors (of_nat 2) c0, Groups G0)"
    unfolding s using u by auto
  then have same: "snd (readProcGroups (booted ?procs) ?c) = snd (readProcGroups (booted ?readable) ?c)"
    by simp
  have fk: "\<And>start. folded [kthread_rule] lookup_root (loaded_proc ''kthreadd'' start 0)
      = Some ((''root'', ''kthreadd''), loaded_stat ''kthreadd'' start)"
    by (simp add: folded_def classify_eval getProcAccount_def loaded_proc_def loaded_stat_def
        kthread_rule_def lookup_root_def)
  have fs: "folded [kthread_rule] lookup_root (loaded_proc ''sshd'' 50 0) = None"
    by (simp add: folded_def classify_eval loaded_proc_def loaded_stat_def kthread_rule_def)
  have fv: "\<And>pid. folded [kthread_rule] lookup_root (vanished_proc pid) = None"
    by (simp add: folded_def vanished_proc_def)
  have af: "\<And>start. \<not> account_failed [kthread_rule] lookup_root (loaded_proc ''kthreadd'' start 0)"
    "\<not> account_failed [kthread_rule] lookup_root (loaded_proc ''sshd'' 50 0)"
    "\<And>pid. \<not> account_failed [kthread_rule] lookup_root (vanished_proc pid)"
    by (simp_all add: account_failed_def fs fv getProcAccount_def loaded_proc_def lookup_root_def)
  have mk: "members [kthread_rule] lookup_root (''root'', ''kthreadd'') ?procs
      = [loaded_stat ''kthreadd'' 300, loaded_stat ''kthreadd'' 100]"
    by (simp add: fk fs fv)
  have ms: "members [kthread_rule] lookup_root (''root'', ''sshd'') ?procs = []"
    by (simp add: fk fs fv)
  have lk: "user_LookupId (booted ?procs) = lookup_root" by (simp add: booted_def)
  have h3: "matchnamer ?c = Some [kthread_rule] \<and> AllProcs (booted ?procs) = Inr ?procs \<and>
      procfs_NewStat (booted ?procs) = (1000, None)"
    by (simp add: NewProcCollector_def booted_def)
  from T[where c = ?c and sys = "booted ?procs" and procs = ?procs and bootTime = 1000 and err = None,
      THEN conjunct2, THEN conjunct2, THEN conjunct1, THEN mp, OF h3]
  obtain c' G where r: "readProcGroups (booted ?procs) ?c = (c', Groups G)"
    and e: "errors_scrape c' = errors_scrape ?c + (if None \<noteq> (None :: string option) then 1 else 0)
             + of_nat (length (filter unreadable ?procs))
             + of_nat (length (filter (account_failed [kthread_rule] lookup_root) ?procs))"
    and g: "\<forall>k. G k = (if members [kthread_rule] lookup_root k ?procs = [] then None
                       else Some (accumulated 1000 k (members [kthread_rule] lookup_root k ?procs)))"
    unfolding lk by blast
  have 2: "errors_scrape (fst (readProcGroups (booted ?procs) ?c)) = 2"
    unfolding r using e u by (simp add: af NewProcCollector_def)
  have 3: "group_at (readProcGroups (booted ?procs) ?c) (''root'', ''kthreadd'')
       = Some \<lparr>name = ''kthreadd'', account = ''root'', cpuSystem = 5, cpuUser = 3,
               memVirt = 8192, memRss = 2048, numProcs = 2, numThreads = 6,
               oldestStartTime = 1001\<rparr>"
    unfolding r using g[rule_format, of "(''root'', ''kthreadd'')", unfolded mk]
    by (simp add: group_at_def accumulated_def loaded_stat_def)
  have 4: "group_at (readProcGroups (booted ?procs) ?c) (''root'', ''sshd'') = None"
    unfolding r using g[rule_format, of "(''root'', ''sshd'')", unfolded ms]
    by (simp add: group_at_def)
  from u(1)[of 99] u(2)[of "''kthreadd''" 300 0] 1 2 3 4 same show ?thesis by blast
qed

text \<open>
  Claim C8. When \<open>user.LookupId\<close> fails for the owner id, \<open>getProcAccount\<close> returns the
  empty name and the error. For a classified process whose \<open>getProcAccount\<close> returns an
  error, the round adds one to the error counter and folds the process into the bucket
  of the empty account and its group name; that bucket is in the groups at the end of
  every pass that reaches the end. Folding adds the CPU seconds, the memory and the
  threads of the process to the accumulator, counts the process and updates the oldest
  start time; a new accumulator starts at zero. In a pass of a collector with a
  classifier such a process is one of the counted failures and a member of the bucket
  of the empty account, which the pass returns with the accumulation of its members.
\<close>

theorem account_failure_counted_and_aggregated:
  "(os_Stat p = Inr (Some uid) \<and> lookupId uid = Inl err \<longrightarrow>
      getProcAccount lookupId p = ([], Some err))
   \<and> (matchnamer c = Some f \<and> NewStat p = Inr stat \<and> CmdLine p = Inr cmdline \<and>
       FirstMatcher_MatchAndName f \<lparr>Name = stat_Comm stat, Cmdline = cmdline\<rparr> = (True, gname) \<and>
       getProcAccount lookupId p = (acct, Some err) \<longrightarrow>
         loop_body lookupId bootTime c procGroups p =
           Continue (count_scrape_error c)
             (procGroups(([], gname) \<mapsto> update_group bootTime stat
                (case procGroups ([], gname) of None \<Rightarrow> new_procGroup gname [] | Some g \<Rightarrow> g)))
         \<and> errors_scrape (count_scrape_error c) = errors_scrape c + 1
         \<and> (\<forall>pre post G0 c' G'.
               procs_loop lookupId bootTime c G0 (pre @ p # post) = Continue c' G'
               \<longrightarrow> ([], gname) \<in> dom G'))
   \<and> update_group bootTime stat g =
        \<lparr>name = name g, account = account g,
         cpuSystem = cpuSystem g + real (unat (stat_STime stat)) / 100,
         cpuUser = cpuUser g + real (unat (stat_UTime stat)) / 100,
         memVirt = memVirt g + stat_VirtualMemory stat,
         memRss = memRss g + stat_ResidentMemory stat,
         numProcs = numProcs g + 1,
         numThreads = numThreads g + stat_NumThreads stat,
         oldestStartTime =
           (if oldestStartTime g = 0 \<or>
               real (unat bootTime) + real (unat (stat_Starttime stat)) / 100 < oldestStartTime g
            then real (unat bootTime) + real (unat (stat_Starttime stat)) / 100
            else oldestStartTime g)\<rparr>
   \<and> new_procGroup gname [] =
        \<lparr>name = gname, account = [], cpuSystem = 0, cpuUser = 0, memVirt = 0, memRss = 0,
         numProcs = 0, numThreads = 0, oldestStartTime = 0\<rparr>
   \<and> (matchnamer c = Some f \<and> AllProcs sys = Inr procs \<and> procfs_NewStat sys = (bootTime, e) \<and>
       p \<in> set procs \<and> NewStat p = Inr stat \<and> CmdLine p = Inr cmdline \<and>
       FirstMatcher_MatchAndName f \<lparr>Name = stat_Comm stat, Cmdline = cmdline\<rparr> = (True, gname) \<and>
       getProcAccount (user_LookupId sys) p = (acct, Some err) \<longrightarrow>
         (\<exists>c' G. readProcGroups sys c = (c', Groups G) \<and>
            p \<in> set (filter (account_failed f (user_LookupId sys)) procs) \<and>
            errors_scrape c' =
              errors_scrape c + (if e \<noteq> None then 1 else 0)
              + of_nat (length (filter unreadable procs))
              + of_nat (length (filter (account_failed f (user_LookupId sys)) procs)) \<and>
            stat \<in> set (members f (user_LookupId sys) ([], gname) procs) \<and>
            G ([], gname) =
              Some (accumulated bootTime ([], gname)
                      (members f (user_LookupId sys) ([], gname) procs))))"
proof (intro conjI impI allI)
  assume "os_Stat p = Inr (Some uid) \<and> lookupId uid = Inl err"
  then show "getProcAccount lookupId p = ([], Some err)"
    by (simp add: getProcAccount_lookup_fails)
next
  assume a: "matchnamer c = Some f \<and> NewStat p = Inr stat \<and> CmdLine p = Inr cmdline \<and>
       FirstMatcher_MatchAndName f \<lparr>Name = stat_Comm stat, Cmdline = cmdline\<rparr> = (True, gname) \<and>
       getProcAccount lookupId p = (acct, Some err)"
  then show "loop_body lookupId bootTime c procGroups p =
           Continue (count_scrape_error c)
             (procGroups(([], gname) \<mapsto> update_group bootTime stat
                (case procGroups ([], gname) of None \<Rightarrow> new_procGroup gname [] | Some g \<Rightarrow> g)))"
    using loop_body_account_fails[of c f p stat cmdline gname lookupId acct err bootTime procGroups]
    by blast
  show "errors_scrape (count_scrape_error c) = errors_scrape c + 1"
    by (simp add: count_scrape_error_def)
  fix pre post G0 c' G'
  assume "procs_loop lookupId bootTime c G0 (pre @ p # post) = Continue c' G'"
  with a show "([], gname) \<in> dom G'"
    using account_failure_bucket[of c f p stat cmdline gname lookupId acct err bootTime G0 pre post c' G']
    by blast
next
  show "update_group bootTime stat g =
        \<lparr>name = name g, account = account g,
         cpuSystem = cpuSystem g + real (unat (stat_STime stat)) / 100,
         cpuUser = cpuUser g + real (unat (stat_UTime stat)) / 100,
         memVirt = memVirt g + stat_VirtualMemory stat,
         memRss = memRss g + stat_ResidentMemory stat,
         numProcs = numProcs g + 1,
         numThreads = numThreads g + stat_NumThreads stat,
         oldestStartTime =
           (if oldestStartTime g = 0 \<or>
               real (unat bootTime) + real (unat (stat_Starttime stat)) / 100 < oldestStartTime g
            then real (unat bootTime) + real (unat (stat_Starttime stat)) / 100
            else oldestStartTime g)\<rparr>"
    by (rule update_group_fields)
  show "new_procGroup gname [] =
        \<lparr>name = gname, account = [], cpuSystem = 0, cpuUser = 0, memVirt = 0, memRss = 0,
         numProcs = 0, numThreads = 0, oldestStartTime = 0\<rparr>"
    by (simp add: new_procGroup_def)
next
  assume "matchnamer c = Some f \<and> AllProcs sys = Inr procs \<and> procfs_NewStat sys = (bootTime, e) \<and>
       p \<in> set procs \<and> NewStat p = Inr stat \<and> CmdLine p = Inr cmdline \<and>
       FirstMatcher_MatchAndName f \<lparr>Name = stat_Comm stat, Cmdline = cmdline\<rparr> = (True, gname) \<and>
       getProcAccount (user_LookupId sys) p = (acct, Some err)"
  then show "\<exists>c' G. readProcGroups sys c = (c', Groups G) \<and>
            p \<in> set (filter (account_failed f (user_LookupId sys)) procs) \<and>
            errors_scrape c' =
              errors_scrape c + (if e \<noteq> None then 1 else 0)
              + of_nat (length (filter unreadable procs))
              + of_nat (length (filter (account_failed f (user_LookupId sys)) procs)) \<and>
            stat \<in> set (members f (user_LookupId sys) ([], gname) procs) \<and>
            G ([], gname) =
              Some (accumulated bootTime ([], gname)
                      (members f (user_LookupId sys) ([], gname) procs))"
    using readProcGroups_account_fails[of c f sys procs bootTime e p stat cmdline gname acct err]
    by blast
qed

text \<open>
  Claim C8 at processes whose owner id 1000 has no account: one alone makes the bucket of
  the empty account with its own CPU seconds, memory, threads and start time; in a table
  with a process of root, two of them are counted as two errors and summed in the bucket
  of the empty account.
\<close>

theorem account_failure_counted_and_aggregated_witness:
  "getProcAccount lookup_root (loaded_proc ''kthreadd'' 300 1000) = ([], Some ''unknown userid'')
   \<and> loop_body lookup_root 1000 (NewProcCollector (Some [kthread_rule])) Map.empty
        (loaded_proc ''kthreadd'' 300 1000)
       = Continue (count_scrape_error (NewProcCollector (Some [kthread_rule])))
           [([], ''kthreadd'') \<mapsto>
              \<lparr>name = ''kthreadd'', account = [], cpuSystem = 5 / 2, cpuUser = 3 / 2,
               memVirt = 4096, memRss = 1024, numProcs = 1, numThreads = 3,
               oldestStartTime = 1003\<rparr>]
   \<and> errors_scrape (count_scrape_error (NewProcCollector (Some [kthread_rule]))) = 1
   \<and> errors_scrape (fst (readProcGroups
         (booted [loaded_proc ''kthreadd'' 100 0, loaded_proc ''kthreadd'' 300 1000,
                  loaded_proc ''kthreadd'' 200 1000])
         (NewProcCollector (Some [kthread_rule])))) = 2
   \<and> group_at (readProcGroups
         (booted [loaded_proc ''kthreadd'' 100 0, loaded_proc ''kthreadd'' 300 1000,
                  loaded_proc ''kthreadd'' 200 1000])
         (NewProcCollector (Some [kthread_rule]))) ([], ''kthreadd'')
       = Some \<lparr>name = ''kthreadd'', account = [], cpuSystem = 5, cpuUser = 3,
               memVirt = 8192, memRss = 2048, numProcs = 2, numThreads = 6,
               oldestStartTime = 1002\<rparr>"
proof -
  let ?c = "NewProcCollector (Some [kthread_rule])"
  let ?p = "loaded_proc ''kthreadd'' 300 1000"
  let ?stat = "loaded_stat ''kthreadd'' 300"
  let ?procs = "[loaded_proc ''kthreadd'' 100 0, ?p, loaded_proc ''kthreadd'' 200 1000]"
  note T = account_failure_counted_and_aggregated
  have o: "os_Stat ?p = Inr (Some 1000) \<and> lookup_root 1000 = Inl ''unknown userid''"
    by (simp add: loaded_proc_def lookup_root_def)
  from T[where p = ?p and lookupId = lookup_root, THEN conjunct1, THEN mp, OF this]
  have g: "getProcAccount lookup_root ?p = ([], Some ''unknown userid'')" .
  have cl: "FirstMatcher_MatchAndName [kthread_rule] \<lparr>Name = stat_Comm ?stat, Cmdline = []\<rparr>
         = (True, ''kthreadd'')"
    by (simp add: classify_eval loaded_stat_def kthread_rule_def)
  have h: "matchnamer ?c = Some [kthread_rule] \<and> NewStat ?p = Inr ?stat \<and> CmdLine ?p = Inr [] \<and>
       FirstMatcher_MatchAndName [kthread_rule] \<lparr>Name = stat_Comm ?stat, Cmdline = []\<rparr>
         = (True, ''kthreadd'') \<and>
       getProcAccount lookup_root ?p = ([], Some ''unknown userid'')"
    using g cl by (simp add: NewProcCollector_def loaded_proc_def)
  note step = T[where p = ?p and lookupId = lookup_root and c = ?c and bootTime = 1000
      and procGroups = Map.empty, THEN conjunct2, THEN conjunct1, THEN mp, OF h]
  have fields: "update_group 1000 ?stat (new_procGroup ''kthreadd'' []) =
      \<lparr>name = ''kthreadd'', account = [], cpuSystem = 5 / 2, cpuUser = 3 / 2,
       memVirt = 4096, memRss = 1024, numProcs = 1, numThreads = 3, oldestStartTime = 1003\<rparr>"
    using T[where bootTime = 1000 and stat = ?stat and g = "new_procGroup ''kthreadd'' []",
        THEN conjunct2, THEN conjunct2, THEN conjunct1]
    by (simp add: loaded_stat_def
        T[where gname = "''kthreadd''", THEN conjunct2, THEN conjunct2, THEN conjunct2, THEN conjunct1])
  from step
  have l: "loop_body lookup_root 1000 ?c Map.empty ?p
       = Continue (count_scrape_error ?c)
           [([], ''kthreadd'') \<mapsto>
              \<lparr>name = ''kthreadd'', account = [], cpuSystem = 5 / 2, cpuUser = 3 / 2,
               memVirt = 4096, memRss = 1024, numProcs = 1, numThreads = 3,
               oldestStartTime = 1003\<rparr>]"
    and e: "errors_scrape (count_scrape_error ?c) = errors_scrape ?c + 1"
    by (simp_all add: fields)
  have e1: "errors_scrape (count_scrape_error ?c) = 1"
    using e by (simp add: NewProcCollector_def)
  have lk: "user_LookupId (booted ?procs) = lookup_root" by (simp add: booted_def)
  have h5: "matchnamer ?c = Some [kthread_rule] \<and> AllProcs (booted ?procs) = Inr ?procs \<and>
       procfs_NewStat (booted ?procs) = (1000, None) \<and>
       ?p \<in> set ?procs \<and> NewStat ?p = Inr ?stat \<and> CmdLine ?p = Inr [] \<and>
       FirstMatcher_MatchAndName [kthread_rule] \<lparr>Name = stat_Comm ?stat, Cmdline = []\<rparr>
         = (True, ''kthreadd'') \<and>
       getProcAccount (user_LookupId (booted ?procs)) ?p = ([], Some ''unknown userid'')"
    unfolding lk using g cl by (simp add: NewProcCollector_def loaded_proc_def booted_def)
  have fo: "\<And>start. folded [kthread_rule] lookup_root (loaded_proc ''kthreadd'' start 1000)
      = Some (([], ''kthreadd''), loaded_stat ''kthreadd'' start)"
    "\<And>start. folded [kthread_rule] lookup_root (loaded_proc ''kthreadd'' start 0)
      = Some ((''root'', ''kthreadd''), loaded_stat ''kthreadd'' start)"
    by (simp_all add: folded_def classify_eval getProcAccount_def loaded_proc_def loaded_stat_def
        kthread_rule_def lookup_root_def)
  have ga: "\<And>start. snd (getProcAccount lookup_root (loaded_proc ''kthreadd'' start 1000)) \<noteq> None"
    "\<And>start. snd (getProcAccount lookup_root (loaded_proc ''kthreadd'' start 0)) = None"
    by (simp_all add: getProcAccount_def loaded_proc_def lookup_root_def)
  have af: "\<And>start. account_failed [kthread_rule] lookup_root (loaded_proc ''kthreadd'' start 1000)"
    "\<And>start. \<not> account_failed [kthread_rule] lookup_root (loaded_proc ''kthreadd'' start 0)"
    using ga by (simp_all add: account_failed_def fo)
  have ur: "\<And>comm start uid. \<not> unreadable (loaded_proc comm start uid)"
    by (simp add: unreadable_def loaded_proc_def)
  have mk: "members [kthread_rule] lookup_root ([], ''kthreadd'') ?procs
      = [loaded_stat ''kthreadd'' 300, loaded_stat ''kthreadd'' 200]"
    by (simp add: fo)
  from T[where c = ?c and sys = "booted ?procs" and procs = ?procs and bootTime = 1000 and e = None
      and p = ?p, THEN conjunct2, THEN conjunct2, THEN conjunct2, THEN conjunct2, THEN mp, OF h5]
  obtain c' G where r: "readProcGroups (booted ?procs) ?c = (c', Groups G)"
    and ec: "errors_scrape c' =
              errors_scrape ?c + (if None \<noteq> (None :: string option) then 1 else 0)
              + of_nat (length (filter unreadable ?procs))
              + of_nat (length (filter (account_failed [kthread_rule] lookup_root) ?procs))"
    and gk: "G ([], ''kthreadd'') =
              Some (accumulated 1000 ([], ''kthreadd'')
                      (members [kthread_rule] lookup_root ([], ''kthreadd'') ?procs))"
    unfolding lk by blast
  have 2: "errors_scrape (fst (readProcGroups (booted ?procs) ?c)) = 2"
    unfolding r using ec by (simp add: af ur NewProcCollector_def)
  have 3: "group_at (readProcGroups (booted ?procs) ?c) ([], ''kthreadd'')
       = Some \<lparr>name = ''kthreadd'', account = [], cpuSystem = 5, cpuUser = 3,
               memVirt = 8192, memRss = 2048, numProcs = 2, numThreads = 6,
               oldestStartTime = 1002\<rparr>"
    unfolding r using gk[unfolded mk]
    by (simp add: group_at_def accumulated_def loaded_stat_def)
  from g l e1 2 3 show ?thesis by blast
qed

text \<open>
  Claim C9, as the code has it. The first start time folded into a new accumulator
  replaces the initial 0 whatever it is, and a start time replaces a stored value other
  than 0 only when it is smaller. A start time is 0 only when the boot time and the
  start ticks of the process are both 0. When none of the start times folded into a
  bucket is 0, \<open>oldestStartTime\<close> of the bucket after the pass is their minimum and is not
  0. This holds for every process table, so also after every process of the table.
\<close>

theorem oldestStartTime_is_minimum:
  "oldestStartTime (update_group bootTime stat (new_procGroup gname acct)) = startTime_of bootTime stat
   \<and> (oldestStartTime g \<noteq> 0 \<longrightarrow>
        oldestStartTime (update_group bootTime stat g) =
          (if startTime_of bootTime stat < oldestStartTime g then startTime_of bootTime stat
           else oldestStartTime g))
   \<and> (startTime_of bootTime stat \<noteq> 0) = (bootTime \<noteq> 0 \<or> stat_Starttime stat \<noteq> 0)
   \<and> (matchnamer c = Some f \<and> AllProcs sys = Inr procs \<and>
       members f (user_LookupId sys) k procs \<noteq> [] \<and>
       (\<forall>stat\<in>set (members f (user_LookupId sys) k procs).
          startTime_of (fst (procfs_NewStat sys)) stat \<noteq> 0) \<longrightarrow>
       (\<exists>c' G g. readProcGroups sys c = (c', Groups G) \<and> G k = Some g \<and>
           oldestStartTime g =
             Min (startTime_of (fst (procfs_NewStat sys)) ` set (members f (user_LookupId sys) k procs)) \<and>
           oldestStartTime g \<noteq> 0))"
proof (intro conjI impI)
  show "oldestStartTime (update_group bootTime stat (new_procGroup gname acct)) = startTime_of bootTime stat"
    by (rule oldest_first)
  show "(startTime_of bootTime stat \<noteq> 0) = (bootTime \<noteq> 0 \<or> stat_Starttime stat \<noteq> 0)"
    by (rule startTime_nonzero)
next
  assume "oldestStartTime g \<noteq> 0"
  then show "oldestStartTime (update_group bootTime stat g) =
          (if startTime_of bootTime stat < oldestStartTime g then startTime_of bootTime stat
           else oldestStartTime g)"
    by (simp add: oldest_update)
next
  assume "matchnamer c = Some f \<and> AllProcs sys = Inr procs \<and>
       members f (user_LookupId sys) k procs \<noteq> [] \<and>
       (\<forall>stat\<in>set (members f (user_LookupId sys) k procs).
          startTime_of (fst (procfs_NewStat sys)) stat \<noteq> 0)"
  then show "\<exists>c' G g. readProcGroups sys c = (c', Groups G) \<and> G k = Some g \<and>
           oldestStartTime g =
             Min (startTime_of (fst (procfs_NewStat sys)) ` set (members f (user_LookupId sys) k procs)) \<and>
           oldestStartTime g \<noteq> 0"
    using readProcGroups_oldest[of c f sys procs k] by blast
qed

text \<open>
  Claim C9 at a system booted at 1000 seconds and three processes of one bucket with the
  start times 1003, 1001 and 1002.
\<close>

theorem oldestStartTime_is_minimum_witness:
  "members [kthread_rule] lookup_root (''root'', ''kthreadd'')
       [kthread_proc 2 300, vanished_proc 5, kthread_proc 7 100, kthread_proc 9 200]
     = [kthread_stat 300, kthread_stat 100, kthread_stat 200]
   \<and> startTime_of 1000 (kthread_stat 300) = 1003
   \<and> startTime_of 1000 (kthread_stat 100) = 1001
   \<and> startTime_of 1000 (kthread_stat 200) = 1002
   \<and> oldestStartTime (update_group 1000 (kthread_stat 300) (new_procGroup ''kthreadd'' ''root'')) = 1003
   \<and> oldestStartTime (update_group 1000 (kthread_stat 100)
         (update_group 1000 (kthread_stat 300) (new_procGroup ''kthreadd'' ''root''))) = 1001
   \<and> oldestStartTime (update_group 1000 (kthread_stat 200)
         (update_group 1000 (kthread_stat 100)
           (update_group 1000 (kthread_stat 300) (new_procGroup ''kthreadd'' ''root'')))) = 1001
   \<and> group_oldest (readProcGroups
         (booted [kthread_proc 2 300, vanished_proc 5, kthread_proc 7 100, kthread_proc 9 200])
         (NewProcCollector (Some [kthread_rule]))) (''root'', ''kthreadd'') = Some 1001"
proof -
  let ?procs = "[kthread_proc 2 300, vanished_proc 5, kthread_proc 7 100, kthread_proc 9 200]"
  let ?c = "NewProcCollector (Some [kthread_rule])"
  let ?k = "(''root'', ''kthreadd'')"
  have f: "\<And>pid start. folded [kthread_rule] lookup_root (kthread_proc pid start)
      = Some (?k, kthread_stat start)"
    by (simp add: folded_def classify_eval getProcAccount_def kthread_proc_def kthread_stat_def
        kthread_rule_def lookup_root_def)
  have v: "folded [kthread_rule] lookup_root (vanished_proc 5) = None"
    by (simp add: folded_def vanished_proc_def)
  have m: "members [kthread_rule] lookup_root ?k ?procs
     = [kthread_stat 300, kthread_stat 100, kthread_stat 200]"
    by (simp add: f v)
  have st: "startTime_of 1000 (kthread_stat 300) = 1003" "startTime_of 1000 (kthread_stat 100) = 1001"
    "startTime_of 1000 (kthread_stat 200) = 1002"
    by (simp_all add: startTime_of_def kthread_stat_def userHZ_def)
  have lk: "user_LookupId (booted ?procs) = lookup_root" "fst (procfs_NewStat (booted ?procs)) = 1000"
    by (simp_all add: booted_def)
  have "matchnamer ?c = Some [kthread_rule] \<and> AllProcs (booted ?procs) = Inr ?procs \<and>
       members [kthread_rule] (user_LookupId (booted ?procs)) ?k ?procs \<noteq> [] \<and>
       (\<forall>stat\<in>set (members [kthread_rule] (user_LookupId (booted ?procs)) ?k ?procs).
          startTime_of (fst (procfs_NewStat (booted ?procs))) stat \<noteq> 0)"
    unfolding lk m by (simp add: NewProcCollector_def booted_def st)
  from oldestStartTime_is_minimum[where c = ?c and sys = "booted ?procs" and procs = ?procs and k = ?k,
      THEN conjunct2, THEN conjunct2, THEN conjunct2, THEN mp, OF this]
  obtain c' G g where "readProcGroups (booted ?procs) ?c = (c', Groups G)" "G ?k = Some g"
    "oldestStartTime g = Min (startTime_of (fst (procfs_NewStat (booted ?procs))) `
        set (members [kthread_rule] (user_LookupId (booted ?procs)) ?k ?procs))"
    by blast
  then have r: "group_oldest (readProcGroups (booted ?procs) ?c) ?k = Some 1001"
    unfolding lk m by (simp add: group_oldest_def st)
  let ?g1 = "update_group 1000 (kthread_stat 300) (new_procGroup ''kthreadd'' ''root'')"
  let ?g2 = "update_group 1000 (kthread_stat 100) ?g1"
  have o1: "oldestStartTime ?g1 = 1003"
    using oldestStartTime_is_minimum[where bootTime = 1000 and stat = "kthread_stat 300"
        and gname = "''kthreadd''" and acct = "''root''", THEN conjunct1] st
    by simp
  then have "oldestStartTime ?g1 \<noteq> 0" by simp
  from oldestStartTime_is_minimum[where bootTime = 1000 and stat = "kthread_stat 100" and g = ?g1,
      THEN conjunct2, THEN conjunct1, THEN mp, OF this]
  have o2: "oldestStartTime ?g2 = 1001" using o1 st by simp
  then have "oldestStartTime ?g2 \<noteq> 0" by simp
  from oldestStartTime_is_minimum[where bootTime = 1000 and stat = "kthread_stat 200" and g = ?g2,
      THEN conjunct2, THEN conjunct1, THEN mp, OF this]
  have o3: "oldestStartTime (update_group 1000 (kthread_stat 200) ?g2) = 1001" using o2 st by simp
  from m st o1 o2 o3 r show ?thesis by blast
qed

text \<open>
  Claim C9 as it was stated fails when \<open>/proc/stat\<close> cannot be read, so the boot time is
  0, and a process has 0 start ticks: after that process alone the stored value is the
  sentinel 0, and after a second process started at 5 seconds it is 5, not the minimum 0.
\<close>

theorem oldestStartTime_is_minimum_counterexample:
  "startTime_of 0 (kthread_stat 0) = 0 \<and> startTime_of 0 (kthread_stat 500) = 5 \<and>
   group_oldest (readProcGroups (no_boot_time [kthread_proc 2 0])
                   (NewProcCollector (Some [kthread_rule]))) (''root'', ''kthreadd'') = Some 0 \<and>
   group_oldest (readProcGroups (no_boot_time [kthread_proc 2 0, kthread_proc 7 500])
                   (NewProcCollector (Some [kthread_rule]))) (''root'', ''kthreadd'') = Some 5"
  by (simp add: classify_eval round_eval readProcGroups_def NewProcCollector_def no_boot_time_def
      group_oldest_def kthread_proc_def kthread_stat_def kthread_rule_def lookup_root_def)

text \<open>
  Claim C10. \<open>main\<close> leaves the classifier nil exactly when the flag \<open>config.path\<close> is
  empty. The pass of a collector with a nil classifier panics at the first readable
  process, having counted the unreadable ones before it (and the boot time, when that
  could not be read); so with a readable process in the table it never returns groups.
\<close>

theorem nil_matchnamer_panics:
  "(main_matchnamer configPath cfg = None) = (configPath = [])
   \<and> matchnamer (NewProcCollector (main_matchnamer [] cfg)) = None
   \<and> (matchnamer c = None \<and> AllProcs sys = Inr (pre @ p # post) \<and>
       (\<forall>q\<in>set pre. unreadable q) \<and> \<not> unreadable p \<longrightarrow>
         readProcGroups sys c =
           (add_scrape_errors (of_nat (length pre))
              (if snd (procfs_NewStat sys) \<noteq> None then count_scrape_error c else c), Panic))
   \<and> (matchnamer c = None \<and> AllProcs sys = Inr procs \<and> (\<exists>p\<in>set procs. \<not> unreadable p) \<longrightarrow>
         snd (readProcGroups sys c) = Panic)"
proof (intro conjI impI)
  show "(main_matchnamer configPath cfg = None) = (configPath = [])"
    by (simp add: main_matchnamer_def)
  show "matchnamer (NewProcCollector (main_matchnamer [] cfg)) = None"
    by (simp add: main_matchnamer_def NewProcCollector_def)
next
  assume "matchnamer c = None \<and> AllProcs sys = Inr (pre @ p # post) \<and>
       (\<forall>q\<in>set pre. unreadable q) \<and> \<not> unreadable p"
  then show "readProcGroups sys c =
           (add_scrape_errors (of_nat (length pre))
              (if snd (procfs_NewStat sys) \<noteq> None then count_scrape_error c else c), Panic)"
    using readProcGroups_nil_panics[of c sys pre p post] by blast
next
  assume a: "matchnamer c = None \<and> AllProcs sys = Inr procs \<and> (\<exists>p\<in>set procs. \<not> unreadable p)"
  then obtain pre p post where s: "procs = pre @ p # post" "\<not> unreadable p"
    "\<forall>q\<in>set pre. \<not> \<not> unreadable q"
    using split_list_first_prop[of procs "\<lambda>p. \<not> unreadable p"] by blast
  with a readProcGroups_nil_panics[of c sys pre p post]
  show "snd (readProcGroups sys c) = Panic" by simp
qed

text \<open>
  Claim C10 at the collector of \<open>main\<close> without configuration and a table whose second
  process is readable.
\<close>

theorem nil_matchnamer_panics_witness:
  "main_matchnamer [] [kthread_rule] = None
   \<and> unreadable (vanished_proc 99) \<and> \<not> unreadable (kthread_proc 2 0)
   \<and> readProcGroups (booted [vanished_proc 99, kthread_proc 2 0, kthread_proc 7 100])
        (NewProcCollector (main_matchnamer [] [kthread_rule]))
       = (\<lparr>matchnamer = None, errors_scrape = 1\<rparr>, Panic)
   \<and> snd (readProcGroups (booted [kthread_proc 7 100, vanished_proc 99])
        (NewProcCollector (main_matchnamer [] [kthread_rule]))) = Panic"
proof -
  let ?c = "NewProcCollector (main_matchnamer [] [kthread_rule])"
  let ?procs = "[vanished_proc 99, kthread_proc 2 0, kthread_proc 7 100]"
  have n: "main_matchnamer [] [kthread_rule] = None"
    using nil_matchnamer_panics[where configPath = "[]" and cfg = "[kthread_rule]", THEN conjunct1]
    by simp
  have u: "unreadable (vanished_proc 99)" "\<not> unreadable (kthread_proc 2 0)"
    by (simp_all add: unreadable_def vanished_proc_def kthread_proc_def)
  have "matchnamer ?c = None \<and>
       AllProcs (booted ?procs) = Inr ([vanished_proc 99] @ kthread_proc 2 0 # [kthread_proc 7 100]) \<and>
       (\<forall>q\<in>set [vanished_proc 99]. unreadable q) \<and> \<not> unreadable (kthread_proc 2 0)"
    using u n by (simp add: NewProcCollector_def booted_def)
  from nil_matchnamer_panics[where c = ?c and sys = "booted ?procs" and pre = "[vanished_proc 99]"
      and p = "kthread_proc 2 0" and post = "[kthread_proc 7 100]",
      THEN conjunct2, THEN conjunct2, THEN conjunct1, THEN mp, OF this]
  have r: "readProcGroups (booted ?procs) ?c = (\<lparr>matchnamer = None, errors_scrape = 1\<rparr>, Panic)"
    by (simp add: booted_def add_scrape_errors_def NewProcCollector_def n)
  have "matchnamer ?c = None \<and>
       AllProcs (booted [kthread_proc 7 100, vanished_proc 99]) = Inr [kthread_proc 7 100, vanished_proc 99] \<and>
       (\<exists>p\<in>set [kthread_proc 7 100, vanished_proc 99]. \<not> unreadable p)"
    using n by (simp add: NewProcCollector_def booted_def unreadable_def kthread_proc_def)
  from nil_matchnamer_panics[where c = ?c and sys = "booted [kthread_proc 7 100, vanished_proc 99]"
      and procs = "[kthread_proc 7 100, vanished_proc 99]",
      THEN conjunct2, THEN conjunct2, THEN conjunct2, THEN mp, OF this]
  have r2: "snd (readProcGroups (booted [kthread_proc 7 100, vanished_proc 99]) ?c) = Panic" .
  from n u r r2 show ?thesis by blast
qed

end
